theory Spec2Isabelle
  imports Main "HOL-Library.Word" "HOL-Library.Sublist"
begin

unbundle bit_operations_syntax

section \<open>The serial line\<close>

text \<open>
  The APDU driver \<^verbatim>\<open>driver/apdu/espidf.c\<close> talks to the card through three calls of the
  UART driver: \<^verbatim>\<open>uart_write_bytes\<close>, \<^verbatim>\<open>uart_read_bytes\<close> and
  \<^verbatim>\<open>uart_get_buffered_data_len\<close>. The UART is an explicit state:
  \<^item> \<open>written\<close>: every byte pushed to the line so far, oldest first;
  \<^item> \<open>wr_script\<close>: the outcome of the coming calls of \<^verbatim>\<open>uart_write_bytes\<close>, one entry per
    call (\<open>True\<close>: the bytes are accepted, \<open>False\<close>: the call returns -1 and pushes nothing);
    once the script is used up every call is accepted;
  \<^item> \<open>line\<close>: what the line delivers to the coming reads: \<open>Some b\<close> is a byte that arrives
    before the deadline of the read waiting for it, \<open>None\<close> is a silence that outlasts the
    deadline of one read. After the last entry the line stays silent, so the card is taken to
    send finitely many bytes; a card that answers 0x60 forever, which keeps the procedure
    byte loop of the source running forever, is outside the model.
  The durations of the deadlines (300 ms to 5 s) are not modelled: a read either gets its
  byte or it times out.
\<close>

type_synonym byte = "8 word"

record uart =
  written :: "byte list"
  wr_script :: "bool list"
  line :: "byte option list"

definition EUICC_INTERFACE_BUFSZ :: nat where
  "EUICC_INTERFACE_BUFSZ = 264"

definition APDU_TERMINAL_CAPABILITIES :: "byte list" where
  "APDU_TERMINAL_CAPABILITIES =
     [0x80, 0xAA, 0x00, 0x00, 0x0A, 0xA9, 0x08, 0x81, 0x00, 0x82, 0x01, 0x01, 0x83, 0x01, 0x07]"

definition APDU_OPENLOGICCHANNEL :: "byte list" where
  "APDU_OPENLOGICCHANNEL = [0x00, 0x70, 0x00, 0x00, 0x01]"

definition APDU_CLOSELOGICCHANNEL :: "byte list" where
  "APDU_CLOSELOGICCHANNEL = [0x00, 0x70, 0x80, 0xFF, 0x00]"

definition APDU_SELECT_HEADER :: "byte list" where
  "APDU_SELECT_HEADER = [0x00, 0xA4, 0x04, 0x00, 0xFF]"

text \<open>
  \<^verbatim>\<open>uart_write_bytes(UART_NUM_1, src, len)\<close> returns \<open>len\<close> when the bytes are pushed
  and -1 when the driver refuses the call.
\<close>

definition uart_write_bytes :: "byte list \<Rightarrow> nat \<Rightarrow> uart \<Rightarrow> int \<times> uart" where
  "uart_write_bytes src len u =
     (case wr_script u of
        [] \<Rightarrow> (int len, u\<lparr>written := written u @ take len src\<rparr>)
      | ok # s \<Rightarrow>
          if ok then (int len, u\<lparr>written := written u @ take len src, wr_script := s\<rparr>)
          else (- 1, u\<lparr>wr_script := s\<rparr>))"

text \<open>
  \<^verbatim>\<open>uart_read_bytes(UART_NUM_1, buf, length, ticks)\<close> collects up to \<open>length\<close> bytes and
  stops early at a silence; its return value is the number of bytes it got, here the length
  of the returned list.
\<close>

fun read_line :: "nat \<Rightarrow> byte option list \<Rightarrow> byte list \<times> byte option list" where
  "read_line 0 l = ([], l)"
| "read_line (Suc n) [] = ([], [])"
| "read_line (Suc n) (None # l) = ([], l)"
| "read_line (Suc n) (Some b # l) = (case read_line n l of (bs, l') \<Rightarrow> (b # bs, l'))"

definition uart_read_bytes :: "nat \<Rightarrow> uart \<Rightarrow> byte list \<times> uart" where
  "uart_read_bytes n u = (case read_line n (line u) of (bs, l) \<Rightarrow> (bs, u\<lparr>line := l\<rparr>))"

text \<open>
  The read of a single byte, \<^verbatim>\<open>uart_read_bytes(UART_NUM_1, &b, 1, ticks)\<close>: \<open>Some b\<close> when
  the call returns 1. It takes one event off the line (lemma \<open>uart_read_byte_eq\<close> below
  relates it to \<open>uart_read_bytes 1\<close>).
\<close>

definition uart_read_byte :: "uart \<Rightarrow> byte option \<times> uart" where
  "uart_read_byte u = (case line u of [] \<Rightarrow> (None, u) | e # l \<Rightarrow> (e, u\<lparr>line := l\<rparr>))"

text \<open>
  \<^verbatim>\<open>uart_get_buffered_data_len\<close>: the bytes waiting in the receive buffer are those that
  arrive before the next silence.
\<close>

definition buffered :: "byte option list \<Rightarrow> nat" where
  "buffered l = length (takeWhile (\<lambda>e. e \<noteq> None) l)"

definition uart_get_buffered_data_len :: "uart \<Rightarrow> nat" where
  "uart_get_buffered_data_len u = buffered (line u)"

section \<open>Sending with echo cancellation\<close>

text \<open>
  C's \<^verbatim>\<open>strncmp(s1, s2, n)\<close>: compares at most \<open>n\<close> characters and stops at the first
  difference or behind a NUL character that both strings share. The end of a list reads as
  the terminating NUL.
\<close>

fun strncmp :: "byte list \<Rightarrow> byte list \<Rightarrow> nat \<Rightarrow> int" where
  "strncmp s1 s2 0 = 0"
| "strncmp (c1 # s1) (c2 # s2) (Suc n) =
     (if c1 \<noteq> c2 then (if c1 < c2 then - 1 else 1)
      else if c1 = 0 then 0
      else strncmp s1 s2 n)"
| "strncmp [] (c2 # s2) (Suc n) = (if c2 = 0 then 0 else - 1)"
| "strncmp (c1 # s1) [] (Suc n) = (if c1 = 0 then 0 else 1)"
| "strncmp [] [] (Suc n) = 0"

text \<open>
  \<^verbatim>\<open>_send_and_clear_echo(tx, tx_len)\<close>: write, read the echo back into a zeroed buffer of
  \<open>EUICC_INTERFACE_BUFSZ\<close> bytes, compare with \<^verbatim>\<open>strncmp\<close>. \<open>tx\<close> is the memory at the
  pointer; \<open>tx_len\<close> is at most 250 in every call, so the \<^verbatim>\<open>uint32_t\<close> is a \<open>nat\<close>.
\<close>

definition send_and_clear_echo :: "byte list \<Rightarrow> nat \<Rightarrow> uart \<Rightarrow> int \<times> uart" where
  "send_and_clear_echo tx tx_len u =
     (case uart_write_bytes tx tx_len u of (w, u1) \<Rightarrow>
        if w \<noteq> int tx_len then (- 1, u1)
        else case uart_read_bytes tx_len u1 of (echo, u2) \<Rightarrow>
          if length echo \<noteq> tx_len then (- 1, u2)
          else let rx_buf = echo @ replicate (EUICC_INTERFACE_BUFSZ - tx_len) 0
               in if strncmp rx_buf tx tx_len \<noteq> 0 then (- 1, u2) else (0, u2))"

section \<open>The APDU exchange\<close>

text \<open>
  The failures the model adds to the source: a store behind the end of the response buffer
  (undefined behaviour in C) ends the run with \<open>BufferOverrun i\<close>, \<open>i\<close> being the index of
  the store.
\<close>

datatype fault = BufferOverrun nat

text \<open>
  The procedure byte loop of \<^verbatim>\<open>_transmit_raw\<close> (\<^verbatim>\<open>while (1)\<close>) either leaves through
  \<^verbatim>\<open>break\<close> on an ACK, or returns a status word, or returns -1 after one of three log
  messages.
\<close>

datatype abort = No_ack | No_sw2 | Expected_nothing_received

datatype proc = Ack uart | Status byte byte uart | Abort abort uart

function wait_ack :: "byte \<Rightarrow> uart \<Rightarrow> proc" where
  "wait_ack ins u =
     (case uart_read_byte u of
        (None, u1) \<Rightarrow> Abort No_ack u1
      | (Some ack, u1) \<Rightarrow>
          if ack = ins then Ack u1
          else if ack \<noteq> 0x60 then
            (case uart_read_byte u1 of
               (None, u2) \<Rightarrow> Abort No_sw2 u2
             | (Some sw2, u2) \<Rightarrow>
                 (case uart_read_byte u2 of
                    (Some nil, u3) \<Rightarrow> Abort Expected_nothing_received u3
                  | (None, u3) \<Rightarrow> Status ack sw2 u3))
          else wait_ack ins u1)"
  by pat_completeness auto
termination
  by (relation "measure (\<lambda>(ins, u). length (line u))")
     (auto simp: uart_read_byte_def split: list.splits)

text \<open>
  \<^verbatim>\<open>ntohs(*(uint16_t *)(tx + i))\<close>: the two bytes at \<open>tx + i\<close> read as a big-endian 16-bit
  value, whatever the byte order of the host.
\<close>

definition ntohs_at :: "byte list \<Rightarrow> nat \<Rightarrow> 16 word" where
  "ntohs_at tx i = push_bit 8 (ucast (tx ! i)) OR ucast (tx ! (i + 1))"

text \<open>
  The value of \<^verbatim>\<open>to_recv\<close> when the receive loop starts. The source initialises it with
  \<^verbatim>\<open>tx[4] + 7 - tx_len\<close> and then overwrites it on every path; the branches below are
  those of the source, the repeated inner test of the short form included. The arithmetic
  is C's \<^verbatim>\<open>int\<close>. With a command of 6 bytes whose \<^verbatim>\<open>tx[4]\<close> is 0 the source reads
  \<^verbatim>\<open>tx[6]\<close>, one byte behind the command.
\<close>

definition to_recv :: "byte list \<Rightarrow> 8 word \<Rightarrow> int" where
  "to_recv tx tx_len =
     (if tx ! 4 = 0 \<and> tx_len > 5 then
        (if tx_len = 7 then
           (let le = ntohs_at tx 5 in if le = 0 then 65535 else uint le + 2)
         else
           (let body_len = uint tx_len - 4; lc = uint (ntohs_at tx 5) in
            if lc \<noteq> body_len - 3 \<and> lc \<noteq> body_len - 5 then 65535
            else if uint tx_len = 7 + lc then 2
            else (let r = uint (ntohs_at tx (unat tx_len - 2))
                  in if r = 0 then 65535 else r + 2)))
      else if tx_len = 5 then
        (let r = uint (tx ! 4) in if r = 0 then 65535 else r + 2)
      else
        (let body_len = uint tx_len - 4; lc = uint (tx ! 4) in
         if lc \<noteq> body_len - 1 \<and> lc \<noteq> body_len - 2 then 65535
         else if uint tx_len = 5 + lc then 2
         else (let r = uint (tx ! (unat tx_len - 1)) in
               if r = 0 then 65535
               else if uint tx_len = 5 + lc then 2
               else (let r' = uint (tx ! (unat tx_len - 1))
                     in if r' = 0 then 65535 else r' + 2))))"

text \<open>
  The receive loop. Each read stores its byte at \<^verbatim>\<open>rx + *rx_len\<close>; \<open>rx\<close> is the
  caller's buffer and its length the buffer's capacity. \<^verbatim>\<open>has_recv\<close> only selects the
  deadline of the next read.
\<close>

function recv_loop ::
  "int \<Rightarrow> byte list \<Rightarrow> nat \<Rightarrow> uart \<Rightarrow> (fault \<times> uart) + (byte list \<times> nat \<times> uart)" where
  "recv_loop want rx rx_len u =
     (if int rx_len < want then
        (case uart_read_byte u of
           (None, u1) \<Rightarrow> Inr (rx, rx_len, u1)
         | (Some b, u1) \<Rightarrow>
             if length rx \<le> rx_len then Inl (BufferOverrun rx_len, u1)
             else if want = 2 \<and> b = 0x60 then recv_loop want (rx[rx_len := b]) rx_len u1
             else recv_loop want (rx[rx_len := b]) (rx_len + 1) u1)
      else Inr (rx, rx_len, u))"
  by pat_completeness auto
termination
  by (relation "measure (\<lambda>(want, rx, rx_len, u). length (line u))")
     (auto simp: uart_read_byte_def split: list.splits)

text \<open>
  \<^verbatim>\<open>_transmit_raw(rx, rx_len, tx, tx_len)\<close>. The result is the return value, the response
  buffer, \<^verbatim>\<open>*rx_len\<close> and the UART. \<open>tx_len\<close> is the \<^verbatim>\<open>uint8_t\<close> of the source.
\<close>

definition transmit_raw ::
  "byte list \<Rightarrow> nat \<Rightarrow> byte list \<Rightarrow> 8 word \<Rightarrow> uart
     \<Rightarrow> (fault \<times> uart) + (int \<times> byte list \<times> nat \<times> uart)" where
  "transmit_raw rx rx_len tx tx_len u =
     (if tx_len < 5 then Inr (- 1, rx, rx_len, u)
      else
        (case send_and_clear_echo tx 5 u of (e, u1) \<Rightarrow>
           if e \<noteq> 0 then Inr (- 1, rx, rx_len, u1)
           else
             (case wait_ack (tx ! 1) u1 of
                Abort _ u2 \<Rightarrow> Inr (- 1, rx, rx_len, u2)
              | Status sw1 sw2 u2 \<Rightarrow>
                  if length rx < 2 then Inl (BufferOverrun (length rx), u2)
                  else Inr (0, (rx[0 := sw1])[1 := sw2], 2, u2)
              | Ack u2 \<Rightarrow>
                  (case (if tx_len > 5
                         then send_and_clear_echo (drop 5 tx) (unat tx_len - 5) u2
                         else (0, u2)) of (e', u3) \<Rightarrow>
                     if e' \<noteq> 0 then Inr (- 1, rx, rx_len, u3)
                     else
                       (case recv_loop (to_recv tx tx_len) rx 0 u3 of
                          Inl f \<Rightarrow> Inl f
                        | Inr (rx', n, u4) \<Rightarrow>
                            if int n \<noteq> to_recv tx tx_len \<and> to_recv tx tx_len \<noteq> 65535
                            then Inr (- 1, rx', n, u4)
                            else Inr (0, rx', n, u4))))))"

text \<open>
  Projections used to state properties: the UART a run ends with, and whether the driver
  accepts the next call of \<^verbatim>\<open>uart_write_bytes\<close>.
\<close>

fun proc_uart :: "proc \<Rightarrow> uart" where
  "proc_uart (Ack u) = u"
| "proc_uart (Status sw1 sw2 u) = u"
| "proc_uart (Abort x u) = u"

fun loop_uart :: "(fault \<times> uart) + (byte list \<times> nat \<times> uart) \<Rightarrow> uart" where
  "loop_uart (Inl (f, u)) = u"
| "loop_uart (Inr (rx, n, u)) = u"

definition uart_after :: "(fault \<times> uart) + (int \<times> byte list \<times> nat \<times> uart) \<Rightarrow> uart" where
  "uart_after r = (case r of Inl (f, u) \<Rightarrow> u | Inr (ret, rx, n, u) \<Rightarrow> u)"

definition write_accepted :: "uart \<Rightarrow> bool" where
  "write_accepted u = (case wr_script u of [] \<Rightarrow> True | ok # s \<Rightarrow> ok)"

section \<open>The ATR listener\<close>

text \<open>
  \<^verbatim>\<open>_wait_for_card\<close>. Its outer loop \<^verbatim>\<open>while (retry++ < 1)\<close> runs its body once. The loops
  return \<open>Inl\<close> where the source returns -1.
\<close>

function skip_marker :: "uart \<Rightarrow> uart + byte \<times> uart" where
  "skip_marker u =
     (case uart_read_byte u of
        (None, u1) \<Rightarrow> Inl u1
      | (Some data, u1) \<Rightarrow> if data \<noteq> 0x3B then Inr (data, u1) else skip_marker u1)"
  by pat_completeness auto
termination
  by (relation "measure (\<lambda>u. length (line u))")
     (auto simp: uart_read_byte_def split: list.splits)

text \<open>\<^verbatim>\<open>for (uint8_t i = 0; i < 4; ++i) if (t0 & (0x10 << i)) ...\<close>, in C's \<^verbatim>\<open>int\<close>.\<close>

function iface_loop :: "byte \<Rightarrow> nat \<Rightarrow> uart \<Rightarrow> uart + uart" where
  "iface_loop t0 i u =
     (if i < 4 then
        (if and (uint t0) (push_bit i 0x10) \<noteq> 0 then
           (case uart_read_byte u of
              (None, u1) \<Rightarrow> Inl u1
            | (Some data, u1) \<Rightarrow> iface_loop t0 (i + 1) u1)
         else iface_loop t0 (i + 1) u)
      else Inr u)"
  by pat_completeness auto
termination
  by (relation "measure (\<lambda>(t0, i, u). 4 - i)") auto

text \<open>\<^verbatim>\<open>for (uint8_t i = 0; i < (t0 & 0xF); ++i) ...\<close>\<close>

function hist_loop :: "byte \<Rightarrow> nat \<Rightarrow> uart \<Rightarrow> uart + uart" where
  "hist_loop t0 i u =
     (if int i < and (uint t0) 0xF then
        (case uart_read_byte u of
           (None, u1) \<Rightarrow> Inl u1
         | (Some data, u1) \<Rightarrow> hist_loop t0 (i + 1) u1)
      else Inr u)"
  by pat_completeness auto
termination
  by (relation "measure (\<lambda>(t0, i, u). nat (and (uint t0) 0xF) - i)") auto

text \<open>\<^verbatim>\<open>while (s) { uart_read_bytes(..., &data, 1, ...); --s; }\<close>\<close>

fun drain :: "nat \<Rightarrow> uart \<Rightarrow> uart" where
  "drain 0 u = u"
| "drain (Suc s) u = drain s (snd (uart_read_byte u))"

definition wait_for_card :: "uart \<Rightarrow> int \<times> uart" where
  "wait_for_card u =
     (case uart_read_byte u of
        (None, u1) \<Rightarrow> (- 1, u1)
      | (Some data, u1) \<Rightarrow>
          if data \<noteq> 0x3B then (- 1, u1)
          else
            (case skip_marker u1 of
               Inl u2 \<Rightarrow> (- 1, u2)
             | Inr (t0, u2) \<Rightarrow>
                 (case iface_loop t0 0 u2 of
                    Inl u3 \<Rightarrow> (- 1, u3)
                  | Inr u3 \<Rightarrow>
                      (case hist_loop t0 0 u3 of
                         Inl u4 \<Rightarrow> (- 1, u4)
                       | Inr u4 \<Rightarrow> (0, drain (uart_get_buffered_data_len u4) u4)))))"

section \<open>Logical channels and the transmit entry point\<close>

text \<open>
  \<^verbatim>\<open>apdu_interface_logic_channel_open(ctx, aid, aid_len)\<close>. The local \<^verbatim>\<open>rx_buf\<close> of
  \<open>EUICC_INTERFACE_BUFSZ\<close> bytes and \<^verbatim>\<open>rx_len\<close> are uninitialised in the source; the
  model starts them at zero, and the function reads only what an exchange has stored.
  \<^verbatim>\<open>tx_len\<close> is a \<^verbatim>\<open>uint32_t\<close> that \<^verbatim>\<open>_transmit_raw\<close> receives as a \<^verbatim>\<open>uint8_t\<close>.
\<close>

definition apdu_interface_logic_channel_open ::
  "byte list \<Rightarrow> 8 word \<Rightarrow> uart \<Rightarrow> (fault \<times> uart) + (int \<times> uart)" where
  "apdu_interface_logic_channel_open aid aid_len u =
     (case transmit_raw (replicate EUICC_INTERFACE_BUFSZ 0) 0 APDU_OPENLOGICCHANNEL 5 u of
        Inl f \<Rightarrow> Inl f
      | Inr (r, rx_buf, rx_len, u1) \<Rightarrow>
          if r \<noteq> 0 then Inr (- 1, u1)
          else if rx_len \<noteq> 3 then Inr (- 1, u1)
          else if (rx_buf ! 1) AND 0xF0 \<noteq> 0x90 then Inr (- 1, u1)
          else
            (let channel = rx_buf ! 0;
                 tx_len = (6 + ucast aid_len - 1 :: 32 word);
                 tx_buf = APDU_SELECT_HEADER @ take (unat aid_len) aid;
                 tx_buf = tx_buf[0 := (tx_buf ! 0 AND 0xF0) OR channel];
                 tx_buf = tx_buf[4 := aid_len]
             in case transmit_raw rx_buf rx_len tx_buf (ucast tx_len) u1 of
                  Inl f \<Rightarrow> Inl f
                | Inr (r', rx_buf', rx_len', u2) \<Rightarrow>
                    if r' \<noteq> 0 then Inr (- 1, u2)
                    else if rx_len' < 2 then Inr (- 1, u2)
                    else if rx_buf' ! (rx_len' - 2) = 0x90 \<or> rx_buf' ! (rx_len' - 2) = 0x61
                    then Inr (uint channel, u2)
                    else Inr (- 1, u2)))"

text \<open>\<^verbatim>\<open>apdu_interface_logic_channel_close(ctx, channel)\<close>\<close>

definition apdu_interface_logic_channel_close ::
  "8 word \<Rightarrow> uart \<Rightarrow> (fault \<times> uart) + uart" where
  "apdu_interface_logic_channel_close channel u =
     (if channel \<noteq> 0 then
        (case transmit_raw (replicate EUICC_INTERFACE_BUFSZ 0) 0 APDU_CLOSELOGICCHANNEL 5 u of
           Inl f \<Rightarrow> Inl f
         | Inr (r, rx_buf, rx_len, u1) \<Rightarrow> Inr u1)
      else Inr u)"

text \<open>
  \<^verbatim>\<open>apdu_interface_transmit(ctx, rx, rx_len, tx, tx_len)\<close>. \<open>malloc_ok\<close> tells whether
  \<^verbatim>\<open>malloc(EUICC_INTERFACE_BUFSZ)\<close> returns a block; \<open>rx_len\<close> is the caller's value of
  \<^verbatim>\<open>*rx_len\<close>. The returned buffer is \<open>None\<close> where the source leaves \<^verbatim>\<open>*rx\<close> without a
  block (\<^verbatim>\<open>NULL\<close>, or the pointer it has just freed). The \<^verbatim>\<open>uint32_t tx_len\<close> is cut to
  the \<^verbatim>\<open>uint8_t\<close> parameter of \<^verbatim>\<open>_transmit_raw\<close>.
\<close>

definition apdu_interface_transmit ::
  "bool \<Rightarrow> nat \<Rightarrow> byte list \<Rightarrow> 32 word \<Rightarrow> uart
     \<Rightarrow> (fault \<times> uart) + (int \<times> byte list option \<times> nat \<times> uart)" where
  "apdu_interface_transmit malloc_ok rx_len tx tx_len u =
     (if \<not> malloc_ok then Inr (- 1, None, rx_len, u)
      else case transmit_raw (replicate EUICC_INTERFACE_BUFSZ 0) EUICC_INTERFACE_BUFSZ
                             tx (ucast tx_len) u of
             Inl f \<Rightarrow> Inl f
           | Inr (r, rx, n, u1) \<Rightarrow>
               if r \<noteq> 0 then Inr (- 1, None, 0, u1) else Inr (0, Some rx, n, u1))"

section \<open>The HTTP collaborator\<close>

text \<open>
  \<^verbatim>\<open>driver/http/espidf.c\<close> keeps the response in three globals, \<^verbatim>\<open>output_buffer\<close>,
  \<^verbatim>\<open>output_len\<close> and \<^verbatim>\<open>receive_len\<close>. They are the fields of the state below,
  together with \<open>heap_script\<close>: the outcome of the coming calls of \<^verbatim>\<open>malloc\<close> and
  \<^verbatim>\<open>realloc\<close>, one entry per call (\<open>False\<close>: the call returns \<^verbatim>\<open>NULL\<close>); once the
  script is used up every call succeeds. A block is the list of its bytes, its length the
  size it was allocated with; a fresh byte is written as 0, and the code never reads one
  before storing to it. The two counters are \<^verbatim>\<open>uint32_t\<close>: naturals with the reduction
  modulo \<open>2 ^ 32\<close> written out.
\<close>

record http =
  output_buffer :: "byte list option"
  output_len :: nat
  receive_len :: nat
  heap_script :: "bool list"

datatype http_event =
    HTTP_EVENT_ERROR
  | HTTP_EVENT_ON_CONNECTED
  | HTTP_EVENT_HEADER_SENT
  | HTTP_EVENT_ON_HEADER
  | HTTP_EVENT_ON_DATA "byte list"
  | HTTP_EVENT_ON_FINISH
  | HTTP_EVENT_DISCONNECTED
  | HTTP_EVENT_REDIRECT

definition ESP_OK :: int where
  "ESP_OK = 0"

definition ESP_FAIL :: int where
  "ESP_FAIL = - 1"

definition alloc :: "http \<Rightarrow> bool \<times> http" where
  "alloc st =
     (case heap_script st of
        [] \<Rightarrow> (True, st)
      | ok # s \<Rightarrow> (ok, st\<lparr>heap_script := s\<rparr>))"

text \<open>\<^verbatim>\<open>realloc(p, n)\<close> on success: the old bytes up to the new size, then fresh ones.\<close>

definition resize :: "byte list \<Rightarrow> nat \<Rightarrow> byte list" where
  "resize buf n = take n buf @ replicate (n - length buf) 0"

text \<open>
  \<^verbatim>\<open>memcpy(buf + off, data, len)\<close>. The copy stays inside the block as long as
  \<open>off + length data \<le> length buf\<close>, which the handler's allocations provide unless a
  counter has wrapped around.
\<close>

definition memcpy_at :: "byte list \<Rightarrow> nat \<Rightarrow> byte list \<Rightarrow> byte list" where
  "memcpy_at buf off data = take off buf @ data @ drop (off + length data) buf"

text \<open>
  \<^verbatim>\<open>_http_event_handler(evt)\<close>; an \<^verbatim>\<open>HTTP_EVENT_ON_DATA\<close> event carries the bytes at
  \<^verbatim>\<open>evt->data\<close>, and \<^verbatim>\<open>evt->data_len\<close> is their number. The other events only log (or
  act on the client handle).
\<close>

fun http_event_handler :: "http_event \<Rightarrow> http \<Rightarrow> int \<times> http" where
  "http_event_handler (HTTP_EVENT_ON_DATA data) st =
     (let data_len = length data;
          st1 = st\<lparr>receive_len := (receive_len st + data_len) mod 2 ^ 32\<rparr>
      in case output_buffer st1 of
           None \<Rightarrow>
             (case alloc st1 of (ok, st2) \<Rightarrow>
                if \<not> ok then (ESP_FAIL, st2\<lparr>output_buffer := None, output_len := 0\<rparr>)
                else
                  (let buf = replicate (data_len + 1) 0
                   in (ESP_OK, st2\<lparr>output_buffer := Some (memcpy_at buf 0 data),
                                   output_len := data_len mod 2 ^ 32\<rparr>)))
         | Some old \<Rightarrow>
             (case alloc st1 of (ok, st2) \<Rightarrow>
                if \<not> ok then (ESP_FAIL, st2\<lparr>output_buffer := None\<rparr>)
                else
                  (let buf = resize old ((output_len st2 + data_len + 1) mod 2 ^ 32)
                   in (ESP_OK, st2\<lparr>output_buffer := Some (memcpy_at buf (output_len st2) data),
                                   output_len := (output_len st2 + data_len) mod 2 ^ 32\<rparr>))))"
| "http_event_handler _ st = (ESP_OK, st)"

text \<open>
  \<^verbatim>\<open>esp_http_client_perform\<close> belongs to the HTTP client library, not to this repository.
  It enters the model as the environment: the events it dispatches to the handler, in
  order, and the error code it returns. The library does not look at the handler's return
  value.
\<close>

definition esp_http_client_perform :: "http_event list \<Rightarrow> int \<Rightarrow> http \<Rightarrow> int \<times> http" where
  "esp_http_client_perform events err st =
     (err, foldl (\<lambda>s evt. snd (http_event_handler evt s)) st events)"

text \<open>
  \<^verbatim>\<open>transmit(ctx, url, rcode, rx, rx_len, tx, tx_len, h)\<close> from the reset of the globals
  on (line 120). The request (URL, method, body, headers) only reaches the client library;
  \<open>status\<close> is what \<^verbatim>\<open>esp_http_client_get_status_code\<close> returns. The result is the return
  value, \<^verbatim>\<open>*rcode\<close>, \<^verbatim>\<open>*rx\<close>, \<^verbatim>\<open>*rx_len\<close> and the globals.
\<close>

definition transmit ::
  "http_event list \<Rightarrow> int \<Rightarrow> nat \<Rightarrow> http \<Rightarrow> int \<times> nat \<times> byte list option \<times> nat \<times> http" where
  "transmit events perform_err status st0 =
     (case esp_http_client_perform events perform_err
             (st0\<lparr>output_buffer := None, output_len := 0, receive_len := 0\<rparr>) of (err, st) \<Rightarrow>
        if output_len st \<noteq> receive_len st then
          (- 1, 0, None, 0, st\<lparr>output_buffer := None, output_len := 0, receive_len := 0\<rparr>)
        else if err = ESP_OK then
          (case output_buffer st of
             Some buf \<Rightarrow>
               if output_len st > 0 then
                 (0, status, Some (buf[output_len st := 0]), (output_len st + 1) mod 2 ^ 32,
                  st\<lparr>output_buffer := Some (buf[output_len st := 0]),
                     output_len := 0, receive_len := 0\<rparr>)
               else (0, status, None, 0, st\<lparr>output_len := 0, receive_len := 0\<rparr>)
           | None \<Rightarrow> (0, status, None, 0, st\<lparr>output_len := 0, receive_len := 0\<rparr>))
        else
          (- 1, status, None, 0, st\<lparr>output_buffer := None, output_len := 0, receive_len := 0\<rparr>))"

text \<open>The response body an exchange delivers: the data of its events, in order.\<close>

fun body_of :: "http_event list \<Rightarrow> byte list" where
  "body_of [] = []"
| "body_of (HTTP_EVENT_ON_DATA data # evs) = data @ body_of evs"
| "body_of (_ # evs) = body_of evs"

text \<open>
  No allocation fails while an event without data is served: for every
  \<^verbatim>\<open>HTTP_EVENT_ON_DATA\<close> event, either it carries at least one byte or the allocation it
  makes succeeds. \<open>hs\<close> is the heap script, one entry for each data event.
\<close>

fun no_empty_failure :: "http_event list \<Rightarrow> bool list \<Rightarrow> bool" where
  "no_empty_failure [] hs = True"
| "no_empty_failure (HTTP_EVENT_ON_DATA d # evs) hs =
     ((d \<noteq> [] \<or> (case hs of [] \<Rightarrow> True | ok # s \<Rightarrow> ok)) \<and> no_empty_failure evs (tl hs))"
| "no_empty_failure (_ # evs) hs = no_empty_failure evs hs"

text \<open>
  The invariant of the handler, for the body \<open>B\<close> received so far: \<^verbatim>\<open>receive_len\<close> is its
  length, and either the buffer holds it (\<open>clean\<close>: one byte more than the body is
  allocated, as the source does) or \<^verbatim>\<open>output_len\<close> has fallen behind for good.
\<close>

definition clean :: "byte list \<Rightarrow> http \<Rightarrow> bool" where
  "clean B st =
     (output_len st = length B \<and>
      (case output_buffer st of
         None \<Rightarrow> B = []
       | Some buf \<Rightarrow> length buf = length B + 1 \<and> take (length B) buf = B))"

definition http_inv :: "byte list \<Rightarrow> http \<Rightarrow> bool" where
  "http_inv B st = (receive_len st = length B \<and> (clean B st \<or> output_len st < length B))"

section \<open>Properties of the serial exchange\<close>

declare wait_ack.simps [simp del] recv_loop.simps [simp del] skip_marker.simps [simp del]
  iface_loop.simps [simp del] hist_loop.simps [simp del]

subsection \<open>Reads and the loops, one line event at a time\<close>

lemma uart_read_byte_eq:
  "uart_read_byte u =
     (case uart_read_bytes 1 u of ([b], u') \<Rightarrow> (Some b, u') | (_, u') \<Rightarrow> (None, u'))"
  by (cases "line u"; cases "hd (line u)")
     (auto simp: uart_read_byte_def uart_read_bytes_def split: prod.splits list.splits)

lemma wait_ack_Nil: "line u = [] \<Longrightarrow> wait_ack ins u = Abort No_ack u"
  by (subst wait_ack.simps) (simp add: uart_read_byte_def)

lemma wait_ack_None: "line u = None # l \<Longrightarrow> wait_ack ins u = Abort No_ack (u\<lparr>line := l\<rparr>)"
  by (subst wait_ack.simps) (simp add: uart_read_byte_def)

lemma wait_ack_Some:
  "line u = Some b # l \<Longrightarrow>
   wait_ack ins u =
     (if b = ins then Ack (u\<lparr>line := l\<rparr>)
      else if b \<noteq> 0x60 then
        (case l of
           [] \<Rightarrow> Abort No_sw2 (u\<lparr>line := l\<rparr>)
         | None # l1 \<Rightarrow> Abort No_sw2 (u\<lparr>line := l1\<rparr>)
         | Some sw2 # [] \<Rightarrow> Status b sw2 (u\<lparr>line := []\<rparr>)
         | Some sw2 # None # l2 \<Rightarrow> Status b sw2 (u\<lparr>line := l2\<rparr>)
         | Some sw2 # Some nil # l2 \<Rightarrow> Abort Expected_nothing_received (u\<lparr>line := l2\<rparr>))
      else wait_ack ins (u\<lparr>line := l\<rparr>))"
  by (subst wait_ack.simps) (simp add: uart_read_byte_def split: list.splits option.splits)

lemma wait_ack_line: "\<exists>l. proc_uart (wait_ack ins u) = u\<lparr>line := l\<rparr>"
proof (induction "line u" arbitrary: u)
  case Nil
  then have "proc_uart (wait_ack ins u) = u\<lparr>line := []\<rparr>"
    by (simp add: wait_ack_Nil [OF sym])
  then show ?case ..
next
  case (Cons e l)
  show ?case
  proof (cases e)
    case None
    with Cons.hyps(2) have "proc_uart (wait_ack ins u) = u\<lparr>line := l\<rparr>"
      by (simp add: wait_ack_None [of u l])
    then show ?thesis ..
  next
    case (Some b)
    with Cons.hyps(2) have eq: "line u = Some b # l" by simp
    have "line (u\<lparr>line := l\<rparr>) = l" by simp
    from Cons.hyps(1) [OF this [symmetric]]
    obtain l' where "proc_uart (wait_ack ins (u\<lparr>line := l\<rparr>)) = u\<lparr>line := l'\<rparr>"
      by auto
    then show ?thesis
      by (auto simp: wait_ack_Some [OF eq] split: list.splits option.splits)
  qed
qed


lemma wait_ack_written: "written (proc_uart (wait_ack ins u)) = written u"
proof -
  obtain l where "proc_uart (wait_ack ins u) = u\<lparr>line := l\<rparr>"
    using wait_ack_line by blast
  then show ?thesis by simp
qed

lemma recv_loop_done: "\<not> int n < w \<Longrightarrow> recv_loop w rx n u = Inr (rx, n, u)"
  by (subst recv_loop.simps) simp

lemma recv_loop_Nil: "int n < w \<Longrightarrow> line u = [] \<Longrightarrow> recv_loop w rx n u = Inr (rx, n, u)"
  by (subst recv_loop.simps) (simp add: uart_read_byte_def)

lemma recv_loop_None:
  "int n < w \<Longrightarrow> line u = None # l \<Longrightarrow> recv_loop w rx n u = Inr (rx, n, u\<lparr>line := l\<rparr>)"
  by (subst recv_loop.simps) (simp add: uart_read_byte_def)

lemma recv_loop_Some:
  "int n < w \<Longrightarrow> line u = Some b # l \<Longrightarrow>
   recv_loop w rx n u =
     (if length rx \<le> n then Inl (BufferOverrun n, u\<lparr>line := l\<rparr>)
      else if w = 2 \<and> b = 0x60 then recv_loop w (rx[n := b]) n (u\<lparr>line := l\<rparr>)
      else recv_loop w (rx[n := b]) (n + 1) (u\<lparr>line := l\<rparr>))"
  by (subst recv_loop.simps) (simp add: uart_read_byte_def)

lemma recv_loop_line: "\<exists>l. loop_uart (recv_loop w rx n u) = u\<lparr>line := l\<rparr>"
proof (induction "line u" arbitrary: u rx n)
  case Nil
  then have "loop_uart (recv_loop w rx n u) = u\<lparr>line := []\<rparr>"
    by (cases "int n < w") (simp_all add: recv_loop_done recv_loop_Nil [OF _ sym])
  then show ?case ..
next
  case (Cons e l)
  show ?case
  proof (cases "int n < w")
    case False
    then have "loop_uart (recv_loop w rx n u) = u\<lparr>line := line u\<rparr>"
      by (simp add: recv_loop_done)
    then show ?thesis ..
  next
    case True
    show ?thesis
    proof (cases e)
      case None
      with Cons.hyps(2) True have "loop_uart (recv_loop w rx n u) = u\<lparr>line := l\<rparr>"
        by (simp add: recv_loop_None [of n w u l])
      then show ?thesis ..
    next
      case (Some b)
      with Cons.hyps(2) have eq: "line u = Some b # l" by simp
      have l: "l = line (u\<lparr>line := l\<rparr>)" by simp
      from Cons.hyps(1) [OF l, of "rx[n := b]" n] Cons.hyps(1) [OF l, of "rx[n := b]" "n + 1"]
      show ?thesis
        by (auto simp: recv_loop_Some [OF True eq])
    qed
  qed
qed

lemma recv_loop_written: "written (loop_uart (recv_loop w rx n u)) = written u"
proof -
  obtain l where "loop_uart (recv_loop w rx n u) = u\<lparr>line := l\<rparr>"
    using recv_loop_line by blast
  then show ?thesis by simp
qed

lemma uart_read_bytes_line: "\<exists>l. snd (uart_read_bytes n u) = u\<lparr>line := l\<rparr>"
  by (auto simp: uart_read_bytes_def split: prod.splits)

lemma send_and_clear_echo_prefix:
  "prefix (written u) (written (snd (send_and_clear_echo tx n u)))"
  by (auto simp: send_and_clear_echo_def uart_write_bytes_def uart_read_bytes_def Let_def
           split: prod.splits list.splits)

lemma send_and_clear_echo_accepted:
  "write_accepted u \<Longrightarrow>
   written (snd (send_and_clear_echo tx n u)) = written u @ take n tx"
  by (auto simp: send_and_clear_echo_def uart_write_bytes_def uart_read_bytes_def Let_def
                 write_accepted_def
           split: prod.splits list.splits)


lemma transmit_raw_short:
  "tx_len < 5 \<Longrightarrow> transmit_raw rx n tx tx_len u = Inr (- 1, rx, n, u)"
  by (simp add: transmit_raw_def)

lemma after_ack_prefix:
  assumes "(if (5::8 word) < tx_len
            then send_and_clear_echo (drop 5 tx) (unat tx_len - 5) u2
            else (0, u2)) = (e', u3)"
  shows "prefix (written u2)
           (written (uart_after
              (if e' \<noteq> 0 then Inr (- 1, rx, n, u3)
               else
                 (case recv_loop (to_recv tx tx_len) rx 0 u3 of
                    Inl f \<Rightarrow> Inl f
                  | Inr (rx', n', u4) \<Rightarrow>
                      if int n' \<noteq> to_recv tx tx_len \<and> to_recv tx tx_len \<noteq> 65535
                      then Inr (- 1, rx', n', u4)
                      else Inr (0, rx', n', u4)))))"
proof -
  have p: "prefix (written u2) (written u3)"
    using assms send_and_clear_echo_prefix [of u2 "drop 5 tx" "unat tx_len - 5"]
    by (auto split: if_splits)
  have "written (loop_uart (recv_loop (to_recv tx tx_len) rx 0 u3)) = written u3"
    by (rule recv_loop_written)
  then show ?thesis using p
    by (cases "recv_loop (to_recv tx tx_len) rx 0 u3")
       (auto simp: uart_after_def)
qed

lemma transmit_raw_header:
  assumes "5 \<le> tx_len" "write_accepted u"
  shows "prefix (written u @ take 5 tx) (written (uart_after (transmit_raw rx n tx tx_len u)))"
proof -
  obtain e u1 where e: "send_and_clear_echo tx 5 u = (e, u1)" by force
  with assms send_and_clear_echo_accepted [of u tx 5]
  have w: "written u1 = written u @ take 5 tx" by simp
  show ?thesis
  proof (cases "e = 0")
    case False
    with assms e w show ?thesis by (simp add: transmit_raw_def uart_after_def not_less [symmetric])
  next
    case True
    have pw: "written (proc_uart (wait_ack (tx ! 1) u1)) = written u1"
      by (rule wait_ack_written)
    show ?thesis
    proof (cases "wait_ack (tx ! 1) u1")
      case (Ack u2)
      obtain e' u3 where b: "(if (5::8 word) < tx_len
            then send_and_clear_echo (drop 5 tx) (unat tx_len - 5) u2
            else (0, u2)) = (e', u3)" by force
      from after_ack_prefix [OF b, of rx n] pw Ack w assms e True b show ?thesis
        by (simp add: transmit_raw_def not_less [symmetric])
    next
      case (Status a b u2)
      with pw w assms e True show ?thesis
        by (simp add: transmit_raw_def uart_after_def not_less [symmetric])
    next
      case (Abort x u2)
      with pw w assms e True show ?thesis
        by (simp add: transmit_raw_def uart_after_def not_less [symmetric])
    qed
  qed
qed


subsection \<open>The length check\<close>

text \<open>
  C8. A command shorter than 5 bytes makes \<^verbatim>\<open>_transmit_raw\<close> return -1 with the UART, the
  response buffer and \<^verbatim>\<open>*rx_len\<close> untouched: no byte is written and none is read. A
  command of at least 5 bytes passes the check and reaches the header transmission: when the
  driver accepts the write, the bytes on the line continue with the 5 header bytes, whatever
  happens afterwards; when it refuses, the call has been made (its script entry is used up)
  and the exchange fails. The length is the \<^verbatim>\<open>uint8_t tx_len\<close> of \<^verbatim>\<open>_transmit_raw\<close>.
\<close>

theorem transmit_raw_length_check:
  "(tx_len < 5 \<longrightarrow> transmit_raw rx n tx tx_len u = Inr (- 1, rx, n, u)) \<and>
   (5 \<le> tx_len \<longrightarrow> write_accepted u \<longrightarrow>
      prefix (written u @ take 5 tx) (written (uart_after (transmit_raw rx n tx tx_len u)))) \<and>
   (5 \<le> tx_len \<longrightarrow> \<not> write_accepted u \<longrightarrow>
      transmit_raw rx n tx tx_len u = Inr (- 1, rx, n, u\<lparr>wr_script := tl (wr_script u)\<rparr>))"
proof (intro conjI impI)
  assume "tx_len < 5"
  then show "transmit_raw rx n tx tx_len u = Inr (- 1, rx, n, u)"
    by (rule transmit_raw_short)
next
  assume "5 \<le> tx_len" "write_accepted u"
  then show "prefix (written u @ take 5 tx)
               (written (uart_after (transmit_raw rx n tx tx_len u)))"
    by (rule transmit_raw_header)
next
  assume "5 \<le> tx_len" "\<not> write_accepted u"
  then show "transmit_raw rx n tx tx_len u = Inr (- 1, rx, n, u\<lparr>wr_script := tl (wr_script u)\<rparr>)"
    by (auto simp: transmit_raw_def send_and_clear_echo_def uart_write_bytes_def
                   write_accepted_def not_less [symmetric]
             split: list.splits)
qed

theorem transmit_raw_length_check_witness:
  "((4 :: 8 word) < 5 \<and>
    transmit_raw [] 0 [0x00, 0xA4, 0x04, 0x00] 4
        \<lparr>written = [], wr_script = [], line = [Some 0x90]\<rparr>
      = Inr (- 1, [], 0, \<lparr>written = [], wr_script = [], line = [Some 0x90]\<rparr>)) \<and>
   ((5 :: 8 word) \<le> 5 \<and>
    write_accepted \<lparr>written = [], wr_script = [True], line = []\<rparr> \<and>
    prefix ([] @ take 5 [0x00, 0x70, 0x00, 0x00, 0x01])
      (written (uart_after (transmit_raw [] 0 [0x00, 0x70, 0x00, 0x00, 0x01] 5
         \<lparr>written = [], wr_script = [True], line = []\<rparr>)))) \<and>
   ((5 :: 8 word) \<le> 5 \<and>
    \<not> write_accepted \<lparr>written = [], wr_script = [False], line = []\<rparr> \<and>
    transmit_raw [] 0 [0x00, 0x70, 0x00, 0x00, 0x01] 5
        \<lparr>written = [], wr_script = [False], line = []\<rparr>
      = Inr (- 1, [], 0, \<lparr>written = [], wr_script = [], line = []\<rparr>))"
  using transmit_raw_length_check [where tx_len = 4 and rx = "[]" and n = 0
          and tx = "[0x00, 0xA4, 0x04, 0x00]"
          and u = "\<lparr>written = [], wr_script = [], line = [Some 0x90]\<rparr>"]
        transmit_raw_length_check [where tx_len = 5 and rx = "[]" and n = 0
          and tx = "[0x00, 0x70, 0x00, 0x00, 0x01]"
          and u = "\<lparr>written = [], wr_script = [True], line = []\<rparr>"]
        transmit_raw_length_check [where tx_len = 5 and rx = "[]" and n = 0
          and tx = "[0x00, 0x70, 0x00, 0x00, 0x01]"
          and u = "\<lparr>written = [], wr_script = [False], line = []\<rparr>"]
  by (simp add: write_accepted_def)

text \<open>
  The entry point \<^verbatim>\<open>apdu_interface_transmit\<close> takes the length as a \<^verbatim>\<open>uint32_t\<close> and
  passes it on as a \<^verbatim>\<open>uint8_t\<close>: a command of 260 bytes arrives at the check with
  \<open>tx_len = 4\<close>.
\<close>

lemma apdu_interface_transmit_cuts_length:
  "apdu_interface_transmit True n tx 260 u = Inr (- 1, None, 0, u)"
  by (simp add: apdu_interface_transmit_def transmit_raw_def)

subsection \<open>The echo check\<close>

text \<open>
  Where the first \<open>n\<close> transmitted bytes hold no 0x00, \<^verbatim>\<open>strncmp\<close> compares all of them.
\<close>

lemma strncmp_no_nul:
  "n \<le> length a \<Longrightarrow> n \<le> length b \<Longrightarrow> 0 \<notin> set (take n b)
     \<Longrightarrow> (strncmp a b n = 0) = (take n a = take n b)"
  by (induction a b n rule: strncmp.induct) auto

text \<open>
  C1 (the code departs from the claim). The header of the driver's own MANAGE CHANNEL OPEN
  command, \<open>00 70 00 00 01\<close>, is sent and the line echoes \<open>00 71 00 00 01\<close>: the second byte
  differs in one bit. \<^verbatim>\<open>_send_and_clear_echo\<close> returns 0, because \<^verbatim>\<open>strncmp\<close> stops
  behind the leading 0x00 that both buffers share.
\<close>

theorem send_and_clear_echo_accepts_mismatch_behind_nul:
  "send_and_clear_echo APDU_OPENLOGICCHANNEL 5
     \<lparr>written = [], wr_script = [],
      line = [Some 0x00, Some 0x71, Some 0x00, Some 0x00, Some 0x01]\<rparr>
   = (0, \<lparr>written = [0x00, 0x70, 0x00, 0x00, 0x01], wr_script = [], line = []\<rparr>)"
  by code_simp

subsection \<open>Closing a logical channel\<close>

text \<open>
  C2 (the code departs from the claim). Closing channel 2, with a card that answers the
  command by the status word \<open>90 00\<close>: the bytes written are \<open>00 70 80 FF 00\<close>, the constant
  \<open>APDU_CLOSELOGICCHANNEL\<close> as it is, and not \<open>02 70 80 FF 00\<close>.
\<close>

theorem logic_channel_close_2_sends_unpatched_apdu:
  "apdu_interface_logic_channel_close 2
     \<lparr>written = [], wr_script = [],
      line = [Some 0x00, Some 0x70, Some 0x80, Some 0xFF, Some 0x00, Some 0x90, Some 0x00]\<rparr>
   = Inr \<lparr>written = [0x00, 0x70, 0x80, 0xFF, 0x00], wr_script = [], line = []\<rparr>"
  by code_simp


subsection \<open>The expected response length\<close>

text \<open>The big-endian read, as a number.\<close>

lemma word_cat_uint: "uint (word_cat (a::byte) (b::byte) :: 16 word) = 256 * uint a + uint b"
proof -
  have a: "0 \<le> uint a" "uint a < 256" using uint_bounded [of a] by simp_all
  have b: "0 \<le> uint b" "uint b < 256" using uint_bounded [of b] by simp_all
  have "uint (word_cat a b :: 16 word) = take_bit 16 (concat_bit 8 (uint b) (uint a))"
    by (simp only: word_cat_eq' uint_word_of_int_eq len_bit0 len_num1) simp
  also have "\<dots> = (uint b mod 256 + 256 * uint a) mod 65536"
    by (simp add: concat_bit_eq take_bit_eq_mod push_bit_eq_mult mult.commute)
  also have "\<dots> = 256 * uint a + uint b" using a b by simp
  finally show ?thesis .
qed

lemma shift_or_cat: "(push_bit 8 (ucast (a::byte)) OR ucast (b::byte) :: 16 word) = word_cat a b"
  by (rule bit_word_eqI) (auto simp: bit_simps dest: bit_imp_le_length)

lemma ntohs_at_uint: "uint (ntohs_at tx i) = 256 * uint (tx ! i) + uint (tx ! (i + 1))"
  by (simp add: ntohs_at_def shift_or_cat word_cat_uint)

lemma ntohs_at_zero: "(ntohs_at tx i = 0) = (256 * uint (tx ! i) + uint (tx ! (i + 1)) = 0)"
  by (simp add: word_uint_eq_iff ntohs_at_uint)


lemma to_recv_header_only:
  "tx_len = 5 \<Longrightarrow> to_recv tx tx_len = (if tx ! 4 = 0 then 65535 else uint (tx ! 4) + 2)"
  by (simp add: to_recv_def Let_def uint_0_iff)

lemma to_recv_short_body:
  assumes "5 < tx_len" "tx ! 4 \<noteq> 0"
  shows "to_recv tx tx_len =
           (if uint tx_len = 5 + uint (tx ! 4) then 2
            else if uint tx_len = 6 + uint (tx ! 4) then
              (if tx ! (unat tx_len - 1) = 0 then 65535 else uint (tx ! (unat tx_len - 1)) + 2)
            else 65535)"
proof -
  have "tx_len \<noteq> 5" using assms(1) by auto
  then show ?thesis using assms
    by (auto simp: to_recv_def Let_def word_uint_eq_iff)
qed

lemma to_recv_extended_7:
  assumes "tx ! 4 = 0" "tx_len = 7"
  shows "to_recv tx tx_len =
           (if 256 * uint (tx ! 5) + uint (tx ! 6) = 0 then 65535
            else 256 * uint (tx ! 5) + uint (tx ! 6) + 2)"
  using assms by (simp add: to_recv_def Let_def ntohs_at_zero ntohs_at_uint)

lemma to_recv_extended_body:
  assumes "tx ! 4 = 0" "5 < tx_len" "tx_len \<noteq> 7"
  shows "to_recv tx tx_len =
           (if uint tx_len = 7 + (256 * uint (tx ! 5) + uint (tx ! 6)) then 2
            else if uint tx_len = 9 + (256 * uint (tx ! 5) + uint (tx ! 6)) then
              (if 256 * uint (tx ! (unat tx_len - 2)) + uint (tx ! (unat tx_len - 1)) = 0
               then 65535
               else 256 * uint (tx ! (unat tx_len - 2)) + uint (tx ! (unat tx_len - 1)) + 2)
            else 65535)"
proof -
  have "5 < unat tx_len" using assms(2) by (simp add: word_less_nat_alt)
  then have idx: "Suc (unat tx_len - 2) = unat tx_len - Suc 0" by simp
  show ?thesis using assms
    by (auto simp: to_recv_def Let_def ntohs_at_uint idx)
qed

text \<open>
  C3. The short form: \<^verbatim>\<open>tx[4]\<close> (P3) is not 0, or the command is the header alone. For
  a command that \<^verbatim>\<open>_transmit_raw\<close> lets pass (\<open>5 \<le> tx_len\<close>):
  \<^item> the header alone gives 65535 when P3 is 0 and P3 + 2 otherwise;
  \<^item> header, Lc = P3 and exactly Lc data bytes give 2;
  \<^item> header, Lc, Lc data bytes and one more byte Le, the last byte of the command, give
    65535 when Le is 0 and Le + 2 otherwise;
  \<^item> a body whose length is neither Lc nor Lc + 1 gives 65535.
\<close>

theorem to_recv_short_form:
  "5 \<le> tx_len \<and> (tx ! 4 \<noteq> 0 \<or> tx_len = 5) \<longrightarrow>
     (tx_len = 5 \<longrightarrow>
        to_recv tx tx_len = (if tx ! 4 = 0 then 65535 else uint (tx ! 4) + 2)) \<and>
     (5 < tx_len \<and> uint tx_len = 5 + uint (tx ! 4) \<longrightarrow> to_recv tx tx_len = 2) \<and>
     (uint tx_len = 6 + uint (tx ! 4) \<longrightarrow>
        to_recv tx tx_len =
          (if tx ! (unat tx_len - 1) = 0 then 65535 else uint (tx ! (unat tx_len - 1)) + 2)) \<and>
     (5 < tx_len \<and> uint tx_len \<noteq> 5 + uint (tx ! 4) \<and> uint tx_len \<noteq> 6 + uint (tx ! 4) \<longrightarrow>
        to_recv tx tx_len = 65535)"
proof (cases "tx_len = 5")
  case True
  have "uint tx_len = 5" using True by simp
  moreover have "0 \<le> uint (tx ! 4)" by simp
  ultimately have "uint tx_len \<noteq> 6 + uint (tx ! 4)" by linarith
  then show ?thesis using True by (simp add: to_recv_header_only)
next
  case False
  show ?thesis
  proof (intro impI, elim conjE)
    assume "5 \<le> tx_len" "tx ! 4 \<noteq> 0 \<or> tx_len = 5"
    with False have b: "5 < tx_len" "tx ! 4 \<noteq> 0" by auto
    show "(tx_len = 5 \<longrightarrow>
        to_recv tx tx_len = (if tx ! 4 = 0 then 65535 else uint (tx ! 4) + 2)) \<and>
     (5 < tx_len \<and> uint tx_len = 5 + uint (tx ! 4) \<longrightarrow> to_recv tx tx_len = 2) \<and>
     (uint tx_len = 6 + uint (tx ! 4) \<longrightarrow>
        to_recv tx tx_len =
          (if tx ! (unat tx_len - 1) = 0 then 65535 else uint (tx ! (unat tx_len - 1)) + 2)) \<and>
     (5 < tx_len \<and> uint tx_len \<noteq> 5 + uint (tx ! 4) \<and> uint tx_len \<noteq> 6 + uint (tx ! 4) \<longrightarrow>
        to_recv tx tx_len = 65535)"
      using False by (simp add: to_recv_short_body [OF b])
  qed
qed

theorem to_recv_short_form_witness:
  "((5 :: 8 word) \<le> 5 \<and> 5 = (5 :: 8 word) \<and> to_recv [0x00, 0xB0, 0x00, 0x00, 0x05] 5 = 7) \<and>
   ((5 :: 8 word) \<le> 5 \<and> 5 = (5 :: 8 word) \<and> to_recv [0x00, 0xB0, 0x00, 0x00, 0x00] 5 = 65535) \<and>
   ((5 :: 8 word) < 8 \<and> [0x00, 0xA4, 0x04, 0x00, 0x03, 0x01, 0x02, 0x03] ! 4 \<noteq> (0 :: byte) \<and>
    to_recv [0x00, 0xA4, 0x04, 0x00, 0x03, 0x01, 0x02, 0x03] 8 = 2) \<and>
   ((5 :: 8 word) < 9 \<and> [0x00, 0xA4, 0x04, 0x00, 0x03, 0x01, 0x02, 0x03, 0x09] ! 4 \<noteq> (0 :: byte) \<and>
    to_recv [0x00, 0xA4, 0x04, 0x00, 0x03, 0x01, 0x02, 0x03, 0x09] 9 = 11) \<and>
   ((5 :: 8 word) < 10 \<and>
    [0x00, 0xA4, 0x04, 0x00, 0x03, 0x01, 0x02, 0x03, 0x09, 0x09] ! 4 \<noteq> (0 :: byte) \<and>
    to_recv [0x00, 0xA4, 0x04, 0x00, 0x03, 0x01, 0x02, 0x03, 0x09, 0x09] 10 = 65535)"
  using to_recv_short_form [where tx_len = 5 and tx = "[0x00, 0xB0, 0x00, 0x00, 0x05]"]
        to_recv_short_form [where tx_len = 5 and tx = "[0x00, 0xB0, 0x00, 0x00, 0x00]"]
        to_recv_short_form [where tx_len = 8
          and tx = "[0x00, 0xA4, 0x04, 0x00, 0x03, 0x01, 0x02, 0x03]"]
        to_recv_short_form [where tx_len = 9
          and tx = "[0x00, 0xA4, 0x04, 0x00, 0x03, 0x01, 0x02, 0x03, 0x09]"]
        to_recv_short_form [where tx_len = 10
          and tx = "[0x00, 0xA4, 0x04, 0x00, 0x03, 0x01, 0x02, 0x03, 0x09, 0x09]"]
  by simp

text \<open>
  C4. The extended form: \<^verbatim>\<open>tx[4]\<close> is 0 and a body follows the header. The two-byte
  fields are read big-endian: the field at \<open>i\<close> has the value
  \<open>256 * tx[i] + tx[i + 1]\<close>.
  \<^item> a command of 7 bytes (header and a two-byte Le) gives 65535 when Le is 0 and Le + 2
    otherwise;
  \<^item> header, two-byte Lc and exactly Lc data bytes (a command of 7 + Lc bytes, other than
    the 7-byte command the first case takes) give 2;
  \<^item> header, two-byte Lc, Lc data bytes and a two-byte Le, the last two bytes of the
    command, give 65535 when Le is 0 and Le + 2 otherwise;
  \<^item> any other length gives 65535.
\<close>

theorem to_recv_extended_form:
  "tx ! 4 = 0 \<and> 5 < tx_len \<longrightarrow>
     (tx_len = 7 \<longrightarrow>
        to_recv tx tx_len =
          (if 256 * uint (tx ! 5) + uint (tx ! 6) = 0 then 65535
           else 256 * uint (tx ! 5) + uint (tx ! 6) + 2)) \<and>
     (tx_len \<noteq> 7 \<and> uint tx_len = 7 + (256 * uint (tx ! 5) + uint (tx ! 6)) \<longrightarrow>
        to_recv tx tx_len = 2) \<and>
     (uint tx_len = 9 + (256 * uint (tx ! 5) + uint (tx ! 6)) \<longrightarrow>
        to_recv tx tx_len =
          (if 256 * uint (tx ! (unat tx_len - 2)) + uint (tx ! (unat tx_len - 1)) = 0 then 65535
           else 256 * uint (tx ! (unat tx_len - 2)) + uint (tx ! (unat tx_len - 1)) + 2)) \<and>
     (tx_len \<noteq> 7 \<and> uint tx_len \<noteq> 7 + (256 * uint (tx ! 5) + uint (tx ! 6)) \<and>
      uint tx_len \<noteq> 9 + (256 * uint (tx ! 5) + uint (tx ! 6)) \<longrightarrow>
        to_recv tx tx_len = 65535)"
proof (cases "tx_len = 7")
  case True
  have "uint tx_len = 7" using True by simp
  moreover have "0 \<le> uint (tx ! 5)" "0 \<le> uint (tx ! 6)" by simp_all
  ultimately have "uint tx_len \<noteq> 9 + (256 * uint (tx ! 5) + uint (tx ! 6))" by linarith
  then show ?thesis using True by (simp add: to_recv_extended_7)
next
  case False
  show ?thesis
  proof (intro impI, elim conjE)
    assume b: "tx ! 4 = 0" "5 < tx_len"
    show "(tx_len = 7 \<longrightarrow>
        to_recv tx tx_len =
          (if 256 * uint (tx ! 5) + uint (tx ! 6) = 0 then 65535
           else 256 * uint (tx ! 5) + uint (tx ! 6) + 2)) \<and>
     (tx_len \<noteq> 7 \<and> uint tx_len = 7 + (256 * uint (tx ! 5) + uint (tx ! 6)) \<longrightarrow>
        to_recv tx tx_len = 2) \<and>
     (uint tx_len = 9 + (256 * uint (tx ! 5) + uint (tx ! 6)) \<longrightarrow>
        to_recv tx tx_len =
          (if 256 * uint (tx ! (unat tx_len - 2)) + uint (tx ! (unat tx_len - 1)) = 0 then 65535
           else 256 * uint (tx ! (unat tx_len - 2)) + uint (tx ! (unat tx_len - 1)) + 2)) \<and>
     (tx_len \<noteq> 7 \<and> uint tx_len \<noteq> 7 + (256 * uint (tx ! 5) + uint (tx ! 6)) \<and>
      uint tx_len \<noteq> 9 + (256 * uint (tx ! 5) + uint (tx ! 6)) \<longrightarrow>
        to_recv tx tx_len = 65535)"
      using False by (simp add: to_recv_extended_body [OF b False])
  qed
qed


theorem to_recv_extended_form_witness:
  "([0x00, 0xB0, 0x00, 0x00, 0x00, 0x01, 0x00] ! 4 = (0 :: byte) \<and> (5 :: 8 word) < 7 \<and>
    to_recv [0x00, 0xB0, 0x00, 0x00, 0x00, 0x01, 0x00] 7 = 258) \<and>
   ([0x00, 0xB0, 0x00, 0x00, 0x00, 0x00, 0x00] ! 4 = (0 :: byte) \<and> (5 :: 8 word) < 7 \<and>
    to_recv [0x00, 0xB0, 0x00, 0x00, 0x00, 0x00, 0x00] 7 = 65535) \<and>
   ([0x00, 0xD6, 0x00, 0x00, 0x00, 0x00, 0x02, 0x07, 0x07] ! 4 = (0 :: byte) \<and> (5 :: 8 word) < 9 \<and>
    to_recv [0x00, 0xD6, 0x00, 0x00, 0x00, 0x00, 0x02, 0x07, 0x07] 9 = 2) \<and>
   ([0x00, 0xD6, 0x00, 0x00, 0x00, 0x00, 0x02, 0x07, 0x07, 0x01, 0x00] ! 4 = (0 :: byte) \<and>
    (5 :: 8 word) < 11 \<and>
    to_recv [0x00, 0xD6, 0x00, 0x00, 0x00, 0x00, 0x02, 0x07, 0x07, 0x01, 0x00] 11 = 258) \<and>
   ([0x00, 0xD6, 0x00, 0x00, 0x00, 0x00, 0x02, 0x07, 0x07, 0x00, 0x00] ! 4 = (0 :: byte) \<and>
    (5 :: 8 word) < 11 \<and>
    to_recv [0x00, 0xD6, 0x00, 0x00, 0x00, 0x00, 0x02, 0x07, 0x07, 0x00, 0x00] 11 = 65535) \<and>
   ([0x00, 0xD6, 0x00, 0x00, 0x00, 0x00, 0x02, 0x07, 0x07, 0x00] ! 4 = (0 :: byte) \<and>
    (5 :: 8 word) < 10 \<and>
    to_recv [0x00, 0xD6, 0x00, 0x00, 0x00, 0x00, 0x02, 0x07, 0x07, 0x00] 10 = 65535)"
  using to_recv_extended_form [where tx_len = 7
          and tx = "[0x00, 0xB0, 0x00, 0x00, 0x00, 0x01, 0x00]"]
        to_recv_extended_form [where tx_len = 7
          and tx = "[0x00, 0xB0, 0x00, 0x00, 0x00, 0x00, 0x00]"]
        to_recv_extended_form [where tx_len = 9
          and tx = "[0x00, 0xD6, 0x00, 0x00, 0x00, 0x00, 0x02, 0x07, 0x07]"]
        to_recv_extended_form [where tx_len = 11
          and tx = "[0x00, 0xD6, 0x00, 0x00, 0x00, 0x00, 0x02, 0x07, 0x07, 0x01, 0x00]"]
        to_recv_extended_form [where tx_len = 11
          and tx = "[0x00, 0xD6, 0x00, 0x00, 0x00, 0x00, 0x02, 0x07, 0x07, 0x00, 0x00]"]
        to_recv_extended_form [where tx_len = 10
          and tx = "[0x00, 0xD6, 0x00, 0x00, 0x00, 0x00, 0x02, 0x07, 0x07, 0x00]"]
  by simp


subsection \<open>The procedure byte\<close>

lemma transmit_raw_after_header:
  assumes "5 \<le> tx_len" "send_and_clear_echo tx 5 u = (0, u1)"
  shows "transmit_raw rx n tx tx_len u =
           (case wait_ack (tx ! 1) u1 of
              Abort x u2 \<Rightarrow> Inr (- 1, rx, n, u2)
            | Status sw1 sw2 u2 \<Rightarrow>
                if length rx < 2 then Inl (BufferOverrun (length rx), u2)
                else Inr (0, (rx[0 := sw1])[1 := sw2], 2, u2)
            | Ack u2 \<Rightarrow>
                (case (if tx_len > 5
                       then send_and_clear_echo (drop 5 tx) (unat tx_len - 5) u2
                       else (0, u2)) of (e', u3) \<Rightarrow>
                   if e' \<noteq> 0 then Inr (- 1, rx, n, u3)
                   else
                     (case recv_loop (to_recv tx tx_len) rx 0 u3 of
                        Inl f \<Rightarrow> Inl f
                      | Inr (rx', n', u4) \<Rightarrow>
                          if int n' \<noteq> to_recv tx tx_len \<and> to_recv tx tx_len \<noteq> 65535
                          then Inr (- 1, rx', n', u4)
                          else Inr (0, rx', n', u4))))"
  using assms by (simp add: transmit_raw_def not_less [symmetric])

text \<open>
  Bytes 0x60 in front of the procedure byte leave no trace, unless 0x60 is the INS of the
  command.
\<close>

lemma wait_ack_skips_nulls:
  "ins \<noteq> 0x60 \<Longrightarrow> line u = replicate k (Some 0x60) @ rest
     \<Longrightarrow> wait_ack ins u = wait_ack ins (u\<lparr>line := rest\<rparr>)"
proof (induction k arbitrary: u)
  case 0
  then have "u\<lparr>line := rest\<rparr> = u" by simp
  then show ?case by simp
next
  case (Suc k)
  then have l: "line u = Some 0x60 # (replicate k (Some 0x60) @ rest)" by simp
  have "wait_ack ins u = wait_ack ins (u\<lparr>line := replicate k (Some 0x60) @ rest\<rparr>)"
    using Suc.prems(1) by (simp add: wait_ack_Some [OF l])
  also have "\<dots> = wait_ack ins (u\<lparr>line := rest\<rparr>)"
    using Suc.IH [of "u\<lparr>line := replicate k (Some 0x60) @ rest\<rparr>"] Suc.prems(1) by simp
  finally show ?case .
qed

lemma wait_ack_after_nulls:
  assumes "ins \<noteq> 0x60 \<or> k = 0" "line u = replicate k (Some 0x60) @ Some b # l"
  shows "wait_ack ins u =
     (if b = ins then Ack (u\<lparr>line := l\<rparr>)
      else if b \<noteq> 0x60 then
        (case l of
           [] \<Rightarrow> Abort No_sw2 (u\<lparr>line := l\<rparr>)
         | None # l1 \<Rightarrow> Abort No_sw2 (u\<lparr>line := l1\<rparr>)
         | Some sw2 # [] \<Rightarrow> Status b sw2 (u\<lparr>line := []\<rparr>)
         | Some sw2 # None # l2 \<Rightarrow> Status b sw2 (u\<lparr>line := l2\<rparr>)
         | Some sw2 # Some nil # l2 \<Rightarrow> Abort Expected_nothing_received (u\<lparr>line := l2\<rparr>))
      else wait_ack ins (u\<lparr>line := l\<rparr>))"
proof (cases "k = 0")
  case True
  with assms(2) have "line u = Some b # l" by simp
  then show ?thesis by (rule wait_ack_Some)
next
  case False
  with assms(1) have i: "ins \<noteq> 0x60" by simp
  have l: "line (u\<lparr>line := Some b # l\<rparr>) = Some b # l" by simp
  show ?thesis
    unfolding wait_ack_skips_nulls [OF i assms(2)]
    using wait_ack_Some [OF l, of ins] by (simp split: list.splits option.splits)
qed

lemma wait_ack_silent_after_nulls:
  assumes "ins \<noteq> 0x60 \<or> k = 0" "line u = replicate k (Some 0x60) @ rest" "rest = [] \<or> hd rest = None"
  shows "wait_ack ins u = Abort No_ack (u\<lparr>line := tl rest\<rparr>)"
proof -
  have "wait_ack ins (u\<lparr>line := rest\<rparr>) = Abort No_ack (u\<lparr>line := tl rest\<rparr>)"
  proof (cases rest)
    case Nil
    then show ?thesis using wait_ack_Nil [of "u\<lparr>line := rest\<rparr>" ins] by simp
  next
    case (Cons e r)
    with assms(3) have "e = None" by simp
    with Cons show ?thesis using wait_ack_None [of "u\<lparr>line := rest\<rparr>" r ins] by simp
  qed
  moreover have "wait_ack ins u = wait_ack ins (u\<lparr>line := rest\<rparr>)"
  proof (cases "k = 0")
    case True
    with assms(2) have "u\<lparr>line := rest\<rparr> = u" by simp
    then show ?thesis by simp
  next
    case False
    with assms(1) have "ins \<noteq> 0x60" by simp
    then show ?thesis using assms(2) by (rule wait_ack_skips_nulls)
  qed
  ultimately show ?thesis by simp
qed

text \<open>
  C5. The header has been sent and its echo accepted (\<open>u1\<close> is the UART at that point).
  The line then delivers \<open>k\<close> bytes 0x60 and after them \<open>rest\<close>; unless \<open>k\<close> is 0, INS
  (\<^verbatim>\<open>tx[1]\<close>) is not 0x60. Every byte the loop reads is classified:
  \<^item> each 0x60 that is not INS is dropped and the loop reads the next procedure byte: the
    exchange ends as it does on \<open>rest\<close> alone, in each of the cases below;
  \<^item> silence instead of a procedure byte: the exchange returns -1;
  \<^item> INS: the loop ends with an ACK and the exchange goes on. A command of 5 bytes enters
    the receive loop at once; a longer one has its body written and echo-checked first
    (when the driver accepts the write, the body bytes follow the header on the line), and
    the result of the exchange is the one of the receive loop;
  \<^item> any other byte \<open>b\<close> is SW1 and the next byte SW2. Without SW2 the exchange returns
    -1. If a third byte arrives the exchange returns -1. If the line is silent, the
    exchange returns 0 with \<^verbatim>\<open>*rx_len\<close> = 2 and the response starting with SW1, SW2;
    nothing has been written behind the header, and the receive loop has not run (the UART
    is the one the third read left).
\<close>

theorem procedure_byte_classification:
  "5 \<le> tx_len \<and> send_and_clear_echo tx 5 u = (0, u1) \<and>
   line u1 = replicate k (Some 0x60) @ rest \<and> (tx ! 1 \<noteq> 0x60 \<or> k = 0) \<longrightarrow>
     (tx ! 1 \<noteq> 0x60 \<longrightarrow> wait_ack (tx ! 1) u1 = wait_ack (tx ! 1) (u1\<lparr>line := rest\<rparr>)) \<and>
     (rest = [] \<or> hd rest = None \<longrightarrow>
        transmit_raw rx n tx tx_len u = Inr (- 1, rx, n, u1\<lparr>line := tl rest\<rparr>)) \<and>
     (rest = Some (tx ! 1) # l \<longrightarrow>
        wait_ack (tx ! 1) u1 = Ack (u1\<lparr>line := l\<rparr>) \<and>
        (tx_len = 5 \<longrightarrow>
           transmit_raw rx n tx tx_len u =
             (case recv_loop (to_recv tx tx_len) rx 0 (u1\<lparr>line := l\<rparr>) of
                Inl f \<Rightarrow> Inl f
              | Inr (rx', n', u4) \<Rightarrow>
                  Inr (if int n' \<noteq> to_recv tx tx_len \<and> to_recv tx tx_len \<noteq> 65535
                       then - 1 else 0, rx', n', u4))) \<and>
        (5 < tx_len \<longrightarrow>
           transmit_raw rx n tx tx_len u =
             (case send_and_clear_echo (drop 5 tx) (unat tx_len - 5) (u1\<lparr>line := l\<rparr>) of
                (e', u3) \<Rightarrow>
                  if e' \<noteq> 0 then Inr (- 1, rx, n, u3)
                  else
                    (case recv_loop (to_recv tx tx_len) rx 0 u3 of
                       Inl f \<Rightarrow> Inl f
                     | Inr (rx', n', u4) \<Rightarrow>
                         Inr (if int n' \<noteq> to_recv tx tx_len \<and> to_recv tx tx_len \<noteq> 65535
                              then - 1 else 0, rx', n', u4)))) \<and>
        (5 < tx_len \<and> write_accepted u1 \<longrightarrow>
           prefix (written u1 @ take (unat tx_len - 5) (drop 5 tx))
                  (written (uart_after (transmit_raw rx n tx tx_len u))))) \<and>
     (rest = Some b # l \<and> b \<noteq> tx ! 1 \<and> b \<noteq> 0x60 \<longrightarrow>
        (l = [] \<or> hd l = None \<longrightarrow>
           transmit_raw rx n tx tx_len u = Inr (- 1, rx, n, u1\<lparr>line := tl l\<rparr>)) \<and>
        (l = Some sw2 # Some x # l3 \<longrightarrow>
           transmit_raw rx n tx tx_len u = Inr (- 1, rx, n, u1\<lparr>line := l3\<rparr>)) \<and>
        (l = Some sw2 # l2 \<and> (l2 = [] \<or> hd l2 = None) \<and> 2 \<le> length rx \<longrightarrow>
           transmit_raw rx n tx tx_len u =
             Inr (0, (rx[0 := b])[1 := sw2], 2, u1\<lparr>line := tl l2\<rparr>) \<and>
           take 2 ((rx[0 := b])[1 := sw2]) = [b, sw2] \<and>
           written (uart_after (transmit_raw rx n tx tx_len u)) = written u1))"
proof (intro impI, elim conjE)
  assume len: "5 \<le> tx_len" and hdr: "send_and_clear_echo tx 5 u = (0, u1)"
    and line: "line u1 = replicate k (Some 0x60) @ rest"
    and ins: "tx ! 1 \<noteq> 0x60 \<or> k = 0"
  note raw = transmit_raw_after_header [OF len hdr, of rx n]
  have N: "tx ! 1 \<noteq> 0x60 \<longrightarrow> wait_ack (tx ! 1) u1 = wait_ack (tx ! 1) (u1\<lparr>line := rest\<rparr>)"
    using wait_ack_skips_nulls [OF _ line] by blast
  have S: "rest = [] \<or> hd rest = None \<longrightarrow>
        transmit_raw rx n tx tx_len u = Inr (- 1, rx, n, u1\<lparr>line := tl rest\<rparr>)"
    using wait_ack_silent_after_nulls [OF ins line] raw by simp
  have A: "rest = Some (tx ! 1) # l \<longrightarrow>
        wait_ack (tx ! 1) u1 = Ack (u1\<lparr>line := l\<rparr>) \<and>
        (tx_len = 5 \<longrightarrow>
           transmit_raw rx n tx tx_len u =
             (case recv_loop (to_recv tx tx_len) rx 0 (u1\<lparr>line := l\<rparr>) of
                Inl f \<Rightarrow> Inl f
              | Inr (rx', n', u4) \<Rightarrow>
                  Inr (if int n' \<noteq> to_recv tx tx_len \<and> to_recv tx tx_len \<noteq> 65535
                       then - 1 else 0, rx', n', u4))) \<and>
        (5 < tx_len \<longrightarrow>
           transmit_raw rx n tx tx_len u =
             (case send_and_clear_echo (drop 5 tx) (unat tx_len - 5) (u1\<lparr>line := l\<rparr>) of
                (e', u3) \<Rightarrow>
                  if e' \<noteq> 0 then Inr (- 1, rx, n, u3)
                  else
                    (case recv_loop (to_recv tx tx_len) rx 0 u3 of
                       Inl f \<Rightarrow> Inl f
                     | Inr (rx', n', u4) \<Rightarrow>
                         Inr (if int n' \<noteq> to_recv tx tx_len \<and> to_recv tx tx_len \<noteq> 65535
                              then - 1 else 0, rx', n', u4)))) \<and>
        (5 < tx_len \<and> write_accepted u1 \<longrightarrow>
           prefix (written u1 @ take (unat tx_len - 5) (drop 5 tx))
                  (written (uart_after (transmit_raw rx n tx tx_len u))))"
  proof (intro impI conjI)
    assume r: "rest = Some (tx ! 1) # l"
    with line have l1: "line u1 = replicate k (Some 0x60) @ Some (tx ! 1) # l" by simp
    show w: "wait_ack (tx ! 1) u1 = Ack (u1\<lparr>line := l\<rparr>)"
      using wait_ack_after_nulls [OF ins l1] by simp
    show "transmit_raw rx n tx tx_len u =
             (case recv_loop (to_recv tx tx_len) rx 0 (u1\<lparr>line := l\<rparr>) of
                Inl f \<Rightarrow> Inl f
              | Inr (rx', n', u4) \<Rightarrow>
                  Inr (if int n' \<noteq> to_recv tx tx_len \<and> to_recv tx tx_len \<noteq> 65535
                       then - 1 else 0, rx', n', u4))" if "tx_len = 5"
      using that raw w by (auto split: sum.splits)
    show "transmit_raw rx n tx tx_len u =
             (case send_and_clear_echo (drop 5 tx) (unat tx_len - 5) (u1\<lparr>line := l\<rparr>) of
                (e', u3) \<Rightarrow>
                  if e' \<noteq> 0 then Inr (- 1, rx, n, u3)
                  else
                    (case recv_loop (to_recv tx tx_len) rx 0 u3 of
                       Inl f \<Rightarrow> Inl f
                     | Inr (rx', n', u4) \<Rightarrow>
                         Inr (if int n' \<noteq> to_recv tx tx_len \<and> to_recv tx tx_len \<noteq> 65535
                              then - 1 else 0, rx', n', u4)))" if "5 < tx_len"
      using that raw w by (auto split: sum.splits prod.splits)
    assume "5 < tx_len \<and> write_accepted u1"
    then have body: "5 < tx_len" and acc: "write_accepted (u1\<lparr>line := l\<rparr>)"
      by (simp_all add: write_accepted_def)
    obtain e' u3
      where s: "send_and_clear_echo (drop 5 tx) (unat tx_len - 5) (u1\<lparr>line := l\<rparr>) = (e', u3)"
      by force
    from send_and_clear_echo_accepted [OF acc, of "drop 5 tx" "unat tx_len - 5"] s
    have w3: "written u3 = written u1 @ take (unat tx_len - 5) (drop 5 tx)" by simp
    have "written (loop_uart (recv_loop (to_recv tx tx_len) rx 0 u3)) = written u3"
      by (rule recv_loop_written)
    then show "prefix (written u1 @ take (unat tx_len - 5) (drop 5 tx))
                  (written (uart_after (transmit_raw rx n tx tx_len u)))"
      using raw w body s w3
      by (cases "recv_loop (to_recv tx tx_len) rx 0 u3") (auto simp: uart_after_def)
  qed
  have W: "rest = Some b # l \<and> b \<noteq> tx ! 1 \<and> b \<noteq> 0x60 \<longrightarrow>
        (l = [] \<or> hd l = None \<longrightarrow>
           transmit_raw rx n tx tx_len u = Inr (- 1, rx, n, u1\<lparr>line := tl l\<rparr>)) \<and>
        (l = Some sw2 # Some x # l3 \<longrightarrow>
           transmit_raw rx n tx tx_len u = Inr (- 1, rx, n, u1\<lparr>line := l3\<rparr>)) \<and>
        (l = Some sw2 # l2 \<and> (l2 = [] \<or> hd l2 = None) \<and> 2 \<le> length rx \<longrightarrow>
           transmit_raw rx n tx tx_len u =
             Inr (0, (rx[0 := b])[1 := sw2], 2, u1\<lparr>line := tl l2\<rparr>) \<and>
           take 2 ((rx[0 := b])[1 := sw2]) = [b, sw2] \<and>
           written (uart_after (transmit_raw rx n tx tx_len u)) = written u1)"
  proof (intro impI, elim conjE)
    assume r: "rest = Some b # l" and b: "b \<noteq> tx ! 1" "b \<noteq> 0x60"
    with line have l1: "line u1 = replicate k (Some 0x60) @ Some b # l" by simp
    note ack = wait_ack_after_nulls [OF ins l1]
    have W1: "l = [] \<or> hd l = None \<longrightarrow>
           transmit_raw rx n tx tx_len u = Inr (- 1, rx, n, u1\<lparr>line := tl l\<rparr>)"
      using raw ack b by (cases l; cases "hd l") auto
    have W2: "l = Some sw2 # Some x # l3 \<longrightarrow>
           transmit_raw rx n tx tx_len u = Inr (- 1, rx, n, u1\<lparr>line := l3\<rparr>)"
      using raw ack b by simp
    have W3: "l = Some sw2 # l2 \<and> (l2 = [] \<or> hd l2 = None) \<and> 2 \<le> length rx \<longrightarrow>
           transmit_raw rx n tx tx_len u =
             Inr (0, (rx[0 := b])[1 := sw2], 2, u1\<lparr>line := tl l2\<rparr>) \<and>
           take 2 ((rx[0 := b])[1 := sw2]) = [b, sw2] \<and>
           written (uart_after (transmit_raw rx n tx tx_len u)) = written u1"
    proof (intro impI, elim conjE)
      assume h: "l = Some sw2 # l2" "l2 = [] \<or> hd l2 = None" "2 \<le> length rx"
      then have w: "wait_ack (tx ! 1) u1 = Status b sw2 (u1\<lparr>line := tl l2\<rparr>)"
        using ack b by (cases l2; cases "hd l2") auto
      have t: "take 2 ((rx[0 := b])[1 := sw2]) = [b, sw2]"
        using h(3) by (cases rx; cases "tl rx") auto
      have e: "transmit_raw rx n tx tx_len u =
                 Inr (0, (rx[0 := b])[1 := sw2], 2, u1\<lparr>line := tl l2\<rparr>)"
        using raw w h(3) by simp
      show "transmit_raw rx n tx tx_len u =
             Inr (0, (rx[0 := b])[1 := sw2], 2, u1\<lparr>line := tl l2\<rparr>) \<and>
           take 2 ((rx[0 := b])[1 := sw2]) = [b, sw2] \<and>
           written (uart_after (transmit_raw rx n tx tx_len u)) = written u1"
        using e t by (simp add: uart_after_def)
    qed
    from W1 W2 W3 show "(l = [] \<or> hd l = None \<longrightarrow>
           transmit_raw rx n tx tx_len u = Inr (- 1, rx, n, u1\<lparr>line := tl l\<rparr>)) \<and>
        (l = Some sw2 # Some x # l3 \<longrightarrow>
           transmit_raw rx n tx tx_len u = Inr (- 1, rx, n, u1\<lparr>line := l3\<rparr>)) \<and>
        (l = Some sw2 # l2 \<and> (l2 = [] \<or> hd l2 = None) \<and> 2 \<le> length rx \<longrightarrow>
           transmit_raw rx n tx tx_len u =
             Inr (0, (rx[0 := b])[1 := sw2], 2, u1\<lparr>line := tl l2\<rparr>) \<and>
           take 2 ((rx[0 := b])[1 := sw2]) = [b, sw2] \<and>
           written (uart_after (transmit_raw rx n tx tx_len u)) = written u1)"
      by blast
  qed
  from N S A W show "     (tx ! 1 \<noteq> 0x60 \<longrightarrow> wait_ack (tx ! 1) u1 = wait_ack (tx ! 1) (u1\<lparr>line := rest\<rparr>)) \<and>
     (rest = [] \<or> hd rest = None \<longrightarrow>
        transmit_raw rx n tx tx_len u = Inr (- 1, rx, n, u1\<lparr>line := tl rest\<rparr>)) \<and>
     (rest = Some (tx ! 1) # l \<longrightarrow>
        wait_ack (tx ! 1) u1 = Ack (u1\<lparr>line := l\<rparr>) \<and>
        (tx_len = 5 \<longrightarrow>
           transmit_raw rx n tx tx_len u =
             (case recv_loop (to_recv tx tx_len) rx 0 (u1\<lparr>line := l\<rparr>) of
                Inl f \<Rightarrow> Inl f
              | Inr (rx', n', u4) \<Rightarrow>
                  Inr (if int n' \<noteq> to_recv tx tx_len \<and> to_recv tx tx_len \<noteq> 65535
                       then - 1 else 0, rx', n', u4))) \<and>
        (5 < tx_len \<longrightarrow>
           transmit_raw rx n tx tx_len u =
             (case send_and_clear_echo (drop 5 tx) (unat tx_len - 5) (u1\<lparr>line := l\<rparr>) of
                (e', u3) \<Rightarrow>
                  if e' \<noteq> 0 then Inr (- 1, rx, n, u3)
                  else
                    (case recv_loop (to_recv tx tx_len) rx 0 u3 of
                       Inl f \<Rightarrow> Inl f
                     | Inr (rx', n', u4) \<Rightarrow>
                         Inr (if int n' \<noteq> to_recv tx tx_len \<and> to_recv tx tx_len \<noteq> 65535
                              then - 1 else 0, rx', n', u4)))) \<and>
        (5 < tx_len \<and> write_accepted u1 \<longrightarrow>
           prefix (written u1 @ take (unat tx_len - 5) (drop 5 tx))
                  (written (uart_after (transmit_raw rx n tx tx_len u))))) \<and>
     (rest = Some b # l \<and> b \<noteq> tx ! 1 \<and> b \<noteq> 0x60 \<longrightarrow>
        (l = [] \<or> hd l = None \<longrightarrow>
           transmit_raw rx n tx tx_len u = Inr (- 1, rx, n, u1\<lparr>line := tl l\<rparr>)) \<and>
        (l = Some sw2 # Some x # l3 \<longrightarrow>
           transmit_raw rx n tx tx_len u = Inr (- 1, rx, n, u1\<lparr>line := l3\<rparr>)) \<and>
        (l = Some sw2 # l2 \<and> (l2 = [] \<or> hd l2 = None) \<and> 2 \<le> length rx \<longrightarrow>
           transmit_raw rx n tx tx_len u =
             Inr (0, (rx[0 := b])[1 := sw2], 2, u1\<lparr>line := tl l2\<rparr>) \<and>
           take 2 ((rx[0 := b])[1 := sw2]) = [b, sw2] \<and>
           written (uart_after (transmit_raw rx n tx tx_len u)) = written u1))"
    by blast
qed


theorem procedure_byte_classification_witness:
  "((5 :: 8 word) \<le> 7 \<and>
    send_and_clear_echo [0x01, 0xA4, 0x04, 0x00, 0x02, 0xAA, 0xBB] 5
      \<lparr>written = [], wr_script = [], line = map Some [0x01, 0xA4, 0x04, 0x00, 0x02, 0x60, 0x60, 0xA4, 0xAA, 0xBB, 0x90, 0x00]\<rparr>
      = (0, \<lparr>written = [0x01, 0xA4, 0x04, 0x00, 0x02], wr_script = [], line = map Some [0x60, 0x60, 0xA4, 0xAA, 0xBB, 0x90, 0x00]\<rparr>) \<and>
    ([0x01, 0xA4, 0x04, 0x00, 0x02, 0xAA, 0xBB] ! 1 \<noteq> (0x60 :: byte)) \<and>
    transmit_raw [0, 0] 0 [0x01, 0xA4, 0x04, 0x00, 0x02, 0xAA, 0xBB] 7
      \<lparr>written = [], wr_script = [], line = map Some [0x01, 0xA4, 0x04, 0x00, 0x02, 0x60, 0x60, 0xA4, 0xAA, 0xBB, 0x90, 0x00]\<rparr>
      = Inr (0, [0x90, 0x00], 2, \<lparr>written = [0x01, 0xA4, 0x04, 0x00, 0x02, 0xAA, 0xBB], wr_script = [], line = []\<rparr>)) \<and>
   ((5 :: 8 word) \<le> 5 \<and>
    send_and_clear_echo [0x01, 0xA4, 0x04, 0x00, 0x02] 5
      \<lparr>written = [], wr_script = [], line = map Some [0x01, 0xA4, 0x04, 0x00, 0x02, 0x60, 0xA4, 0x11, 0x22, 0x90, 0x00]\<rparr>
      = (0, \<lparr>written = [0x01, 0xA4, 0x04, 0x00, 0x02], wr_script = [], line = map Some [0x60, 0xA4, 0x11, 0x22, 0x90, 0x00]\<rparr>) \<and>
    ([0x01, 0xA4, 0x04, 0x00, 0x02] ! 1 \<noteq> (0x60 :: byte)) \<and>
    transmit_raw [0, 0, 0, 0] 0 [0x01, 0xA4, 0x04, 0x00, 0x02] 5
      \<lparr>written = [], wr_script = [], line = map Some [0x01, 0xA4, 0x04, 0x00, 0x02, 0x60, 0xA4, 0x11, 0x22, 0x90, 0x00]\<rparr>
      = Inr (0, [0x11, 0x22, 0x90, 0x00], 4, \<lparr>written = [0x01, 0xA4, 0x04, 0x00, 0x02], wr_script = [], line = []\<rparr>)) \<and>
   ((5 :: 8 word) \<le> 5 \<and>
    send_and_clear_echo [0x01, 0xA4, 0x04, 0x00, 0x02] 5
      \<lparr>written = [], wr_script = [], line = map Some [0x01, 0xA4, 0x04, 0x00, 0x02, 0x60, 0x6A, 0x82]\<rparr>
      = (0, \<lparr>written = [0x01, 0xA4, 0x04, 0x00, 0x02], wr_script = [], line = map Some [0x60, 0x6A, 0x82]\<rparr>) \<and>
    ([0x01, 0xA4, 0x04, 0x00, 0x02] ! 1 \<noteq> (0x60 :: byte)) \<and>
    transmit_raw [0, 0] 0 [0x01, 0xA4, 0x04, 0x00, 0x02] 5
      \<lparr>written = [], wr_script = [], line = map Some [0x01, 0xA4, 0x04, 0x00, 0x02, 0x60, 0x6A, 0x82]\<rparr>
      = Inr (0, [0x6A, 0x82], 2, \<lparr>written = [0x01, 0xA4, 0x04, 0x00, 0x02], wr_script = [], line = []\<rparr>)) \<and>
   ((5 :: 8 word) \<le> 5 \<and>
    send_and_clear_echo [0x01, 0xA4, 0x04, 0x00, 0x02] 5
      \<lparr>written = [], wr_script = [], line = map Some [0x01, 0xA4, 0x04, 0x00, 0x02, 0x60, 0x6A, 0x82, 0x00]\<rparr>
      = (0, \<lparr>written = [0x01, 0xA4, 0x04, 0x00, 0x02], wr_script = [], line = map Some [0x60, 0x6A, 0x82, 0x00]\<rparr>) \<and>
    ([0x01, 0xA4, 0x04, 0x00, 0x02] ! 1 \<noteq> (0x60 :: byte)) \<and>
    transmit_raw [0, 0] 0 [0x01, 0xA4, 0x04, 0x00, 0x02] 5
      \<lparr>written = [], wr_script = [], line = map Some [0x01, 0xA4, 0x04, 0x00, 0x02, 0x60, 0x6A, 0x82, 0x00]\<rparr>
      = Inr (- 1, [0, 0], 0, \<lparr>written = [0x01, 0xA4, 0x04, 0x00, 0x02], wr_script = [], line = []\<rparr>)) \<and>
   ((5 :: 8 word) \<le> 5 \<and>
    send_and_clear_echo [0x01, 0xA4, 0x04, 0x00, 0x02] 5
      \<lparr>written = [], wr_script = [], line = map Some [0x01, 0xA4, 0x04, 0x00, 0x02, 0x60, 0x60]\<rparr>
      = (0, \<lparr>written = [0x01, 0xA4, 0x04, 0x00, 0x02], wr_script = [], line = map Some [0x60, 0x60]\<rparr>) \<and>
    ([0x01, 0xA4, 0x04, 0x00, 0x02] ! 1 \<noteq> (0x60 :: byte)) \<and>
    transmit_raw [0, 0] 0 [0x01, 0xA4, 0x04, 0x00, 0x02] 5
      \<lparr>written = [], wr_script = [], line = map Some [0x01, 0xA4, 0x04, 0x00, 0x02, 0x60, 0x60]\<rparr>
      = Inr (- 1, [0, 0], 0, \<lparr>written = [0x01, 0xA4, 0x04, 0x00, 0x02], wr_script = [], line = []\<rparr>)) \<and>
   ((5 :: 8 word) \<le> 5 \<and>
    send_and_clear_echo [0x01, 0xA4, 0x04, 0x00, 0x02] 5
      \<lparr>written = [], wr_script = [], line = map Some [0x01, 0xA4, 0x04, 0x00, 0x02, 0x6A]\<rparr>
      = (0, \<lparr>written = [0x01, 0xA4, 0x04, 0x00, 0x02], wr_script = [], line = map Some [0x6A]\<rparr>) \<and>
    ((0 :: nat) = 0) \<and>
    transmit_raw [0, 0] 0 [0x01, 0xA4, 0x04, 0x00, 0x02] 5
      \<lparr>written = [], wr_script = [], line = map Some [0x01, 0xA4, 0x04, 0x00, 0x02, 0x6A]\<rparr>
      = Inr (- 1, [0, 0], 0, \<lparr>written = [0x01, 0xA4, 0x04, 0x00, 0x02], wr_script = [], line = []\<rparr>))"
proof -
  have h0: "send_and_clear_echo [0x01, 0xA4, 0x04, 0x00, 0x02, 0xAA, 0xBB] 5
      \<lparr>written = [], wr_script = [], line = map Some [0x01, 0xA4, 0x04, 0x00, 0x02, 0x60, 0x60, 0xA4, 0xAA, 0xBB, 0x90, 0x00]\<rparr>
      = (0, \<lparr>written = [0x01, 0xA4, 0x04, 0x00, 0x02], wr_script = [], line = map Some [0x60, 0x60, 0xA4, 0xAA, 0xBB, 0x90, 0x00]\<rparr>)"
    by code_simp
  have r0: "transmit_raw [0, 0] 0 [0x01, 0xA4, 0x04, 0x00, 0x02, 0xAA, 0xBB] 7
      \<lparr>written = [], wr_script = [], line = map Some [0x01, 0xA4, 0x04, 0x00, 0x02, 0x60, 0x60, 0xA4, 0xAA, 0xBB, 0x90, 0x00]\<rparr>
      = Inr (0, [0x90, 0x00], 2, \<lparr>written = [0x01, 0xA4, 0x04, 0x00, 0x02, 0xAA, 0xBB], wr_script = [], line = []\<rparr>)"
    by code_simp
  have h1: "send_and_clear_echo [0x01, 0xA4, 0x04, 0x00, 0x02] 5
      \<lparr>written = [], wr_script = [], line = map Some [0x01, 0xA4, 0x04, 0x00, 0x02, 0x60, 0xA4, 0x11, 0x22, 0x90, 0x00]\<rparr>
      = (0, \<lparr>written = [0x01, 0xA4, 0x04, 0x00, 0x02], wr_script = [], line = map Some [0x60, 0xA4, 0x11, 0x22, 0x90, 0x00]\<rparr>)"
    by code_simp
  have r1: "transmit_raw [0, 0, 0, 0] 0 [0x01, 0xA4, 0x04, 0x00, 0x02] 5
      \<lparr>written = [], wr_script = [], line = map Some [0x01, 0xA4, 0x04, 0x00, 0x02, 0x60, 0xA4, 0x11, 0x22, 0x90, 0x00]\<rparr>
      = Inr (0, [0x11, 0x22, 0x90, 0x00], 4, \<lparr>written = [0x01, 0xA4, 0x04, 0x00, 0x02], wr_script = [], line = []\<rparr>)"
    by code_simp
  have h2: "send_and_clear_echo [0x01, 0xA4, 0x04, 0x00, 0x02] 5
      \<lparr>written = [], wr_script = [], line = map Some [0x01, 0xA4, 0x04, 0x00, 0x02, 0x60, 0x6A, 0x82]\<rparr>
      = (0, \<lparr>written = [0x01, 0xA4, 0x04, 0x00, 0x02], wr_script = [], line = map Some [0x60, 0x6A, 0x82]\<rparr>)"
    by code_simp
  have r2: "transmit_raw [0, 0] 0 [0x01, 0xA4, 0x04, 0x00, 0x02] 5
      \<lparr>written = [], wr_script = [], line = map Some [0x01, 0xA4, 0x04, 0x00, 0x02, 0x60, 0x6A, 0x82]\<rparr>
      = Inr (0, [0x6A, 0x82], 2, \<lparr>written = [0x01, 0xA4, 0x04, 0x00, 0x02], wr_script = [], line = []\<rparr>)"
    by code_simp
  have h3: "send_and_clear_echo [0x01, 0xA4, 0x04, 0x00, 0x02] 5
      \<lparr>written = [], wr_script = [], line = map Some [0x01, 0xA4, 0x04, 0x00, 0x02, 0x60, 0x6A, 0x82, 0x00]\<rparr>
      = (0, \<lparr>written = [0x01, 0xA4, 0x04, 0x00, 0x02], wr_script = [], line = map Some [0x60, 0x6A, 0x82, 0x00]\<rparr>)"
    by code_simp
  have r3: "transmit_raw [0, 0] 0 [0x01, 0xA4, 0x04, 0x00, 0x02] 5
      \<lparr>written = [], wr_script = [], line = map Some [0x01, 0xA4, 0x04, 0x00, 0x02, 0x60, 0x6A, 0x82, 0x00]\<rparr>
      = Inr (- 1, [0, 0], 0, \<lparr>written = [0x01, 0xA4, 0x04, 0x00, 0x02], wr_script = [], line = []\<rparr>)"
    by code_simp
  have h4: "send_and_clear_echo [0x01, 0xA4, 0x04, 0x00, 0x02] 5
      \<lparr>written = [], wr_script = [], line = map Some [0x01, 0xA4, 0x04, 0x00, 0x02, 0x60, 0x60]\<rparr>
      = (0, \<lparr>written = [0x01, 0xA4, 0x04, 0x00, 0x02], wr_script = [], line = map Some [0x60, 0x60]\<rparr>)"
    by code_simp
  have r4: "transmit_raw [0, 0] 0 [0x01, 0xA4, 0x04, 0x00, 0x02] 5
      \<lparr>written = [], wr_script = [], line = map Some [0x01, 0xA4, 0x04, 0x00, 0x02, 0x60, 0x60]\<rparr>
      = Inr (- 1, [0, 0], 0, \<lparr>written = [0x01, 0xA4, 0x04, 0x00, 0x02], wr_script = [], line = []\<rparr>)"
    by code_simp
  have h5: "send_and_clear_echo [0x01, 0xA4, 0x04, 0x00, 0x02] 5
      \<lparr>written = [], wr_script = [], line = map Some [0x01, 0xA4, 0x04, 0x00, 0x02, 0x6A]\<rparr>
      = (0, \<lparr>written = [0x01, 0xA4, 0x04, 0x00, 0x02], wr_script = [], line = map Some [0x6A]\<rparr>)"
    by code_simp
  have r5: "transmit_raw [0, 0] 0 [0x01, 0xA4, 0x04, 0x00, 0x02] 5
      \<lparr>written = [], wr_script = [], line = map Some [0x01, 0xA4, 0x04, 0x00, 0x02, 0x6A]\<rparr>
      = Inr (- 1, [0, 0], 0, \<lparr>written = [0x01, 0xA4, 0x04, 0x00, 0x02], wr_script = [], line = []\<rparr>)"
    by code_simp
  show ?thesis
    using
      procedure_byte_classification [where tx_len = 7 and tx = "[0x01, 0xA4, 0x04, 0x00, 0x02, 0xAA, 0xBB]"
        and u = "\<lparr>written = [], wr_script = [], line = map Some [0x01, 0xA4, 0x04, 0x00, 0x02, 0x60, 0x60, 0xA4, 0xAA, 0xBB, 0x90, 0x00]\<rparr>"
        and ?u1.0 = "\<lparr>written = [0x01, 0xA4, 0x04, 0x00, 0x02], wr_script = [], line = map Some [0x60, 0x60, 0xA4, 0xAA, 0xBB, 0x90, 0x00]\<rparr>"
        and k = 2 and rest = "map Some [0xA4, 0xAA, 0xBB, 0x90, 0x00]" and l = "map Some [0xAA, 0xBB, 0x90, 0x00]"
        and rx = "[0, 0]" and n = 0]
      procedure_byte_classification [where tx_len = 5 and tx = "[0x01, 0xA4, 0x04, 0x00, 0x02]"
        and u = "\<lparr>written = [], wr_script = [], line = map Some [0x01, 0xA4, 0x04, 0x00, 0x02, 0x60, 0xA4, 0x11, 0x22, 0x90, 0x00]\<rparr>"
        and ?u1.0 = "\<lparr>written = [0x01, 0xA4, 0x04, 0x00, 0x02], wr_script = [], line = map Some [0x60, 0xA4, 0x11, 0x22, 0x90, 0x00]\<rparr>"
        and k = 1 and rest = "map Some [0xA4, 0x11, 0x22, 0x90, 0x00]" and l = "map Some [0x11, 0x22, 0x90, 0x00]"
        and rx = "[0, 0, 0, 0]" and n = 0]
      procedure_byte_classification [where tx_len = 5 and tx = "[0x01, 0xA4, 0x04, 0x00, 0x02]"
        and u = "\<lparr>written = [], wr_script = [], line = map Some [0x01, 0xA4, 0x04, 0x00, 0x02, 0x60, 0x6A, 0x82]\<rparr>"
        and ?u1.0 = "\<lparr>written = [0x01, 0xA4, 0x04, 0x00, 0x02], wr_script = [], line = map Some [0x60, 0x6A, 0x82]\<rparr>"
        and k = 1 and rest = "map Some [0x6A, 0x82]" and b = "0x6A" and l = "map Some [0x82]" and ?sw2.0 = "0x82" and ?l2.0 = "[]"
        and rx = "[0, 0]" and n = 0]
      procedure_byte_classification [where tx_len = 5 and tx = "[0x01, 0xA4, 0x04, 0x00, 0x02]"
        and u = "\<lparr>written = [], wr_script = [], line = map Some [0x01, 0xA4, 0x04, 0x00, 0x02, 0x60, 0x6A, 0x82, 0x00]\<rparr>"
        and ?u1.0 = "\<lparr>written = [0x01, 0xA4, 0x04, 0x00, 0x02], wr_script = [], line = map Some [0x60, 0x6A, 0x82, 0x00]\<rparr>"
        and k = 1 and rest = "map Some [0x6A, 0x82, 0x00]" and b = "0x6A" and l = "map Some [0x82, 0x00]" and ?sw2.0 = "0x82" and x = 0 and ?l3.0 = "[]"
        and rx = "[0, 0]" and n = 0]
      procedure_byte_classification [where tx_len = 5 and tx = "[0x01, 0xA4, 0x04, 0x00, 0x02]"
        and u = "\<lparr>written = [], wr_script = [], line = map Some [0x01, 0xA4, 0x04, 0x00, 0x02, 0x60, 0x60]\<rparr>"
        and ?u1.0 = "\<lparr>written = [0x01, 0xA4, 0x04, 0x00, 0x02], wr_script = [], line = map Some [0x60, 0x60]\<rparr>"
        and k = 2 and rest = "[]"
        and rx = "[0, 0]" and n = 0]
      procedure_byte_classification [where tx_len = 5 and tx = "[0x01, 0xA4, 0x04, 0x00, 0x02]"
        and u = "\<lparr>written = [], wr_script = [], line = map Some [0x01, 0xA4, 0x04, 0x00, 0x02, 0x6A]\<rparr>"
        and ?u1.0 = "\<lparr>written = [0x01, 0xA4, 0x04, 0x00, 0x02], wr_script = [], line = map Some [0x6A]\<rparr>"
        and k = 0 and rest = "map Some [0x6A]" and b = "0x6A" and l = "[]"
        and rx = "[0, 0]" and n = 0]
      h0 r0 h1 r1 h2 r2 h3 r3 h4 r4 h5 r5
    by simp
qed

subsection \<open>Opening a logical channel\<close>

text \<open>
  The \<^verbatim>\<open>uint32_t tx_len\<close> of the SELECT command, cut to 8 bits, and the patched command.
\<close>

lemma select_tx_len: "(ucast (5 + ucast (aid_len :: 8 word) :: 32 word) :: 8 word) = 5 + aid_len"
proof -
  have a: "unat aid_len < 256" using unsigned_less [of aid_len, where 'a = nat] by simp
  have u: "unat (ucast aid_len :: 32 word) = unat aid_len"
    using a by (simp add: unsigned_ucast_eq take_bit_eq_mod)
  have "unat (5 + ucast aid_len :: 32 word) = 5 + unat aid_len"
    using a by (simp add: unat_word_ariths u)
  then have "unat (ucast (5 + ucast aid_len :: 32 word) :: 8 word) = (5 + unat aid_len) mod 256"
    by (simp add: unsigned_ucast_eq take_bit_eq_mod)
  moreover have "unat (5 + aid_len) = (5 + unat aid_len) mod 256"
    by (simp add: unat_word_ariths)
  ultimately show ?thesis by (simp add: word_unat_eq_iff)
qed


lemma select_tx_buf:
  "((APDU_SELECT_HEADER @ bs)[0 := ((APDU_SELECT_HEADER @ bs) ! 0 AND 0xF0) OR channel])
     [4 := aid_len] = [channel, 0xA4, 0x04, 0x00, aid_len] @ bs"
  by (simp add: APDU_SELECT_HEADER_def)

text \<open>
  C6. Let the MANAGE CHANNEL OPEN exchange end with return value \<open>r\<close>, buffer \<open>rx1\<close> and
  \<^verbatim>\<open>rx_len\<close> = \<open>n1\<close>. Unless the exchange succeeded with exactly 3 bytes whose second
  byte has the high nibble 9, \<^verbatim>\<open>logic_channel_open\<close> returns -1. Otherwise the channel is
  \<open>rx1 ! 0\<close>, the SELECT command is \<open>channel A4 04 00 aid_len\<close> followed by the AID, and
  \<^verbatim>\<open>logic_channel_open\<close> returns the channel exactly when the SELECT exchange succeeds
  with at least 2 bytes and the byte at index \<open>n2 - 2\<close> is 0x90 or 0x61; in every other
  case it returns -1.
\<close>

theorem logic_channel_open_result:
  "transmit_raw (replicate EUICC_INTERFACE_BUFSZ 0) 0 APDU_OPENLOGICCHANNEL 5 u
     = Inr (r, rx1, n1, u1) \<longrightarrow>
   (\<not> (r = 0 \<and> n1 = 3 \<and> rx1 ! 1 AND 0xF0 = 0x90) \<longrightarrow>
      apdu_interface_logic_channel_open aid aid_len u = Inr (- 1, u1)) \<and>
   (r = 0 \<and> n1 = 3 \<and> rx1 ! 1 AND 0xF0 = 0x90 \<and>
    transmit_raw rx1 n1 ([rx1 ! 0, 0xA4, 0x04, 0x00, aid_len] @ take (unat aid_len) aid)
        (5 + aid_len) u1 = Inr (r2, rx2, n2, u2) \<longrightarrow>
      apdu_interface_logic_channel_open aid aid_len u =
        Inr (if r2 = 0 \<and> 2 \<le> n2 \<and> (rx2 ! (n2 - 2) = 0x90 \<or> rx2 ! (n2 - 2) = 0x61)
             then uint (rx1 ! 0) else - 1, u2))"
  by (auto simp: apdu_interface_logic_channel_open_def Let_def select_tx_len select_tx_buf)


theorem logic_channel_open_result_witness:
  "(transmit_raw (replicate EUICC_INTERFACE_BUFSZ 0) 0 APDU_OPENLOGICCHANNEL 5
      \<lparr>written = [], wr_script = [],
       line = map Some [0x00, 0x70, 0x00, 0x00, 0x01, 0x70, 0x01, 0x90, 0x00,
                        0x01, 0xA4, 0x04, 0x00, 0x02, 0xA4, 0xAA, 0xBB, 0x90, 0x00]\<rparr>
      = Inr (0, [0x01, 0x90, 0x00] @ replicate 261 0, 3,
             \<lparr>written = [0x00, 0x70, 0x00, 0x00, 0x01], wr_script = [],
              line = map Some [0x01, 0xA4, 0x04, 0x00, 0x02, 0xA4, 0xAA, 0xBB, 0x90, 0x00]\<rparr>) \<and>
    (([0x01, 0x90, 0x00] @ replicate 261 0) ! 1 :: byte) AND 0xF0 = 0x90 \<and>
    transmit_raw ([0x01, 0x90, 0x00] @ replicate 261 0) 3
      ([0x01, 0xA4, 0x04, 0x00, 0x02] @ take (unat (2 :: 8 word)) [0xAA, 0xBB]) (5 + 2)
      \<lparr>written = [0x00, 0x70, 0x00, 0x00, 0x01], wr_script = [],
       line = map Some [0x01, 0xA4, 0x04, 0x00, 0x02, 0xA4, 0xAA, 0xBB, 0x90, 0x00]\<rparr>
      = Inr (0, [0x90, 0x00, 0x00] @ replicate 261 0, 2,
             \<lparr>written = [0x00, 0x70, 0x00, 0x00, 0x01, 0x01, 0xA4, 0x04, 0x00, 0x02, 0xAA, 0xBB],
              wr_script = [], line = []\<rparr>) \<and>
    apdu_interface_logic_channel_open [0xAA, 0xBB] 2
      \<lparr>written = [], wr_script = [],
       line = map Some [0x00, 0x70, 0x00, 0x00, 0x01, 0x70, 0x01, 0x90, 0x00,
                        0x01, 0xA4, 0x04, 0x00, 0x02, 0xA4, 0xAA, 0xBB, 0x90, 0x00]\<rparr>
      = Inr (1, \<lparr>written = [0x00, 0x70, 0x00, 0x00, 0x01,
                             0x01, 0xA4, 0x04, 0x00, 0x02, 0xAA, 0xBB],
                  wr_script = [], line = []\<rparr>)) \<and>
   (transmit_raw (replicate EUICC_INTERFACE_BUFSZ 0) 0 APDU_OPENLOGICCHANNEL 5
      \<lparr>written = [], wr_script = [],
       line = map Some [0x00, 0x70, 0x00, 0x00, 0x01, 0x6A, 0x81]\<rparr>
      = Inr (0, [0x6A, 0x81] @ replicate 262 0, 2,
             \<lparr>written = [0x00, 0x70, 0x00, 0x00, 0x01], wr_script = [], line = []\<rparr>) \<and>
    (2 :: nat) \<noteq> 3 \<and>
    apdu_interface_logic_channel_open [0xAA, 0xBB] 2
      \<lparr>written = [], wr_script = [],
       line = map Some [0x00, 0x70, 0x00, 0x00, 0x01, 0x6A, 0x81]\<rparr>
      = Inr (- 1, \<lparr>written = [0x00, 0x70, 0x00, 0x00, 0x01], wr_script = [], line = []\<rparr>))"
proof -
  have h1: "transmit_raw (replicate EUICC_INTERFACE_BUFSZ 0) 0 APDU_OPENLOGICCHANNEL 5
      \<lparr>written = [], wr_script = [],
       line = map Some [0x00, 0x70, 0x00, 0x00, 0x01, 0x70, 0x01, 0x90, 0x00,
                        0x01, 0xA4, 0x04, 0x00, 0x02, 0xA4, 0xAA, 0xBB, 0x90, 0x00]\<rparr>
      = Inr (0, [0x01, 0x90, 0x00] @ replicate 261 0, 3,
             \<lparr>written = [0x00, 0x70, 0x00, 0x00, 0x01], wr_script = [],
              line = map Some [0x01, 0xA4, 0x04, 0x00, 0x02, 0xA4, 0xAA, 0xBB, 0x90, 0x00]\<rparr>)"
    by code_simp
  have h2: "transmit_raw ([0x01, 0x90, 0x00] @ replicate 261 0) 3
      ([0x01, 0xA4, 0x04, 0x00, 0x02] @ take (unat (2 :: 8 word)) [0xAA, 0xBB]) (5 + 2)
      \<lparr>written = [0x00, 0x70, 0x00, 0x00, 0x01], wr_script = [],
       line = map Some [0x01, 0xA4, 0x04, 0x00, 0x02, 0xA4, 0xAA, 0xBB, 0x90, 0x00]\<rparr>
      = Inr (0, [0x90, 0x00, 0x00] @ replicate 261 0, 2,
             \<lparr>written = [0x00, 0x70, 0x00, 0x00, 0x01, 0x01, 0xA4, 0x04, 0x00, 0x02, 0xAA, 0xBB],
              wr_script = [], line = []\<rparr>)"
    by code_simp
  have h3: "transmit_raw (replicate EUICC_INTERFACE_BUFSZ 0) 0 APDU_OPENLOGICCHANNEL 5
      \<lparr>written = [], wr_script = [],
       line = map Some [0x00, 0x70, 0x00, 0x00, 0x01, 0x6A, 0x81]\<rparr>
      = Inr (0, [0x6A, 0x81] @ replicate 262 0, 2,
             \<lparr>written = [0x00, 0x70, 0x00, 0x00, 0x01], wr_script = [], line = []\<rparr>)"
    by code_simp
  have h4: "(([0x01, 0x90, 0x00] @ replicate 261 0) ! 1 :: byte) AND 0xF0 = 0x90"
           "(([0x01, 0x90, 0x00] @ replicate 261 0) ! 0 :: byte) = 1"
           "(([0x90, 0x00, 0x00] @ replicate 261 0) ! (2 - 2) :: byte) = 0x90"
    by simp_all
  from logic_channel_open_result [where u = "\<lparr>written = [], wr_script = [],
           line = map Some [0x00, 0x70, 0x00, 0x00, 0x01, 0x70, 0x01, 0x90, 0x00,
                            0x01, 0xA4, 0x04, 0x00, 0x02, 0xA4, 0xAA, 0xBB, 0x90, 0x00]\<rparr>"
         and aid = "[0xAA, 0xBB]" and aid_len = 2, THEN mp, OF h1] h2 h4
  have a: "apdu_interface_logic_channel_open [0xAA, 0xBB] 2
      \<lparr>written = [], wr_script = [],
       line = map Some [0x00, 0x70, 0x00, 0x00, 0x01, 0x70, 0x01, 0x90, 0x00,
                        0x01, 0xA4, 0x04, 0x00, 0x02, 0xA4, 0xAA, 0xBB, 0x90, 0x00]\<rparr>
      = Inr (1, \<lparr>written = [0x00, 0x70, 0x00, 0x00, 0x01,
                             0x01, 0xA4, 0x04, 0x00, 0x02, 0xAA, 0xBB],
                  wr_script = [], line = []\<rparr>)"
    by simp
  from logic_channel_open_result [where u = "\<lparr>written = [], wr_script = [],
           line = map Some [0x00, 0x70, 0x00, 0x00, 0x01, 0x6A, 0x81]\<rparr>"
         and aid = "[0xAA, 0xBB]" and aid_len = 2, THEN mp, OF h3]
  have b: "apdu_interface_logic_channel_open [0xAA, 0xBB] 2
      \<lparr>written = [], wr_script = [],
       line = map Some [0x00, 0x70, 0x00, 0x00, 0x01, 0x6A, 0x81]\<rparr>
      = Inr (- 1, \<lparr>written = [0x00, 0x70, 0x00, 0x00, 0x01], wr_script = [], line = []\<rparr>)"
    by simp
  show ?thesis using h1 h2 h3 h4(1) a b
    by (intro conjI) simp_all
qed


subsection \<open>The response buffer\<close>

text \<open>
  The receive loop stays inside the buffer when the expected length does not exceed the
  buffer's capacity.
\<close>

lemma recv_loop_in_bounds:
  "want \<le> int (length rx) \<Longrightarrow> \<not> isl (recv_loop want rx n u)"
proof (induction "line u" arbitrary: u rx n)
  case Nil
  then show ?case
    by (cases "int n < want") (simp_all add: recv_loop_done recv_loop_Nil [OF _ sym])
next
  case (Cons e l)
  show ?case
  proof (cases "int n < want")
    case False
    then show ?thesis by (simp add: recv_loop_done)
  next
    case True
    show ?thesis
    proof (cases e)
      case None
      with Cons.hyps(2) True show ?thesis by (simp add: recv_loop_None [of n want u l])
    next
      case (Some b)
      with Cons.hyps(2) have eq: "line u = Some b # l" by simp
      have l: "l = line (u\<lparr>line := l\<rparr>)" by simp
      have len: "want \<le> int (length (rx[n := b]))" using Cons.prems by simp
      from Cons.hyps(1) [OF l len, of n] Cons.hyps(1) [OF l len, of "n + 1"] True Cons.prems
      show ?thesis by (auto simp: recv_loop_Some [OF True eq])
    qed
  qed
qed

text \<open>
  C9 (the code departs from the claim). \<^verbatim>\<open>apdu_interface_transmit\<close> hands a block of
  \<open>EUICC_INTERFACE_BUFSZ\<close> = 264 bytes to \<^verbatim>\<open>_transmit_raw\<close>, whose receive loop is
  bounded by \<^verbatim>\<open>to_recv\<close> alone.
  \<^item> The command \<open>00 B0 00 00 00\<close> (header only, P3 = 0) expects 65535 bytes; the card
    acknowledges and sends 265 bytes without a pause: the 265th is stored at index 264.
  \<^item> The extended command \<open>00 B0 00 00 00 01 10\<close> asks for Le = 272 bytes, so that
    \<^verbatim>\<open>to_recv\<close> is 274; the card sends the 272 bytes and the status word: again a byte is
    stored at index 264.
\<close>

theorem apdu_interface_transmit_overruns_buffer:
  "apdu_interface_transmit True 0 [0x00, 0xB0, 0x00, 0x00, 0x00] 5
     \<lparr>written = [], wr_script = [],
      line = map Some ([0x00, 0xB0, 0x00, 0x00, 0x00] @ [0xB0] @ replicate 265 0x41)\<rparr>
   = Inl (BufferOverrun 264,
          \<lparr>written = [0x00, 0xB0, 0x00, 0x00, 0x00], wr_script = [], line = []\<rparr>) \<and>
   to_recv [0x00, 0xB0, 0x00, 0x00, 0x00, 0x01, 0x10] 7 = 274 \<and>
   apdu_interface_transmit True 0 [0x00, 0xB0, 0x00, 0x00, 0x00, 0x01, 0x10] 7
     \<lparr>written = [], wr_script = [],
      line = map Some ([0x00, 0xB0, 0x00, 0x00, 0x00] @ [0xB0] @ [0x01, 0x10] @
                       replicate 272 0x41 @ [0x90, 0x00])\<rparr>
   = Inl (BufferOverrun 264,
          \<lparr>written = [0x00, 0xB0, 0x00, 0x00, 0x00, 0x01, 0x10], wr_script = [],
           line = map Some (replicate 7 0x41 @ [0x90, 0x00])\<rparr>)"
  by code_simp

section \<open>Properties of the ATR listener\<close>

text \<open>
  A loop of \<open>k\<close> mandatory reads succeeds exactly when \<open>k\<close> bytes arrive before the next
  silence, and then has taken exactly those \<open>k\<close> bytes off the line.
\<close>

lemma buffered_simps [simp]:
  "buffered [] = 0"
  "buffered (None # l) = 0"
  "buffered (Some b # l) = Suc (buffered l)"
  by (simp_all add: buffered_def)

lemma buffered_pos: "0 < buffered l \<Longrightarrow> \<exists>b l'. l = Some b # l'"
  by (cases l; cases "hd l") auto

lemma buffered_drop: "k \<le> buffered l \<Longrightarrow> buffered (drop k l) = buffered l - k"
proof (induction k arbitrary: l)
  case 0
  then show ?case by simp
next
  case (Suc k)
  then obtain b l' where "l = Some b # l'" using buffered_pos [of l] by auto
  with Suc show ?case by simp
qed

lemma uart_read_byte_Some: "line u = Some b # l \<Longrightarrow> uart_read_byte u = (Some b, u\<lparr>line := l\<rparr>)"
  by (simp add: uart_read_byte_def)

lemma uart_read_byte_silent: "buffered (line u) = 0 \<Longrightarrow> \<exists>u'. uart_read_byte u = (None, u')"
  by (cases "line u"; cases "hd (line u)") (auto simp: uart_read_byte_def)

lemma drain_eq: "drain s u = u\<lparr>line := drop s (line u)\<rparr>"
proof (induction s arbitrary: u)
  case 0
  then show ?case by simp
next
  case (Suc s)
  show ?case
    by (cases "line u") (simp_all add: Suc uart_read_byte_def)
qed

lemma skip_marker_run:
  "line u = replicate k (Some 0x3B) @ Some t0 # rest \<Longrightarrow> t0 \<noteq> 0x3B
     \<Longrightarrow> skip_marker u = Inr (t0, u\<lparr>line := rest\<rparr>)"
proof (induction k arbitrary: u)
  case 0
  then show ?case by (subst skip_marker.simps) (simp add: uart_read_byte_def)
next
  case (Suc k)
  have "skip_marker u = skip_marker (u\<lparr>line := replicate k (Some 0x3B) @ Some t0 # rest\<rparr>)"
    using Suc.prems by (subst skip_marker.simps) (simp add: uart_read_byte_def)
  also have "\<dots> = Inr (t0, u\<lparr>line := rest\<rparr>)"
    using Suc.IH [of "u\<lparr>line := replicate k (Some 0x3B) @ Some t0 # rest\<rparr>"] Suc.prems(2)
    by simp
  finally show ?case .
qed


lemma hist_loop_reads:
  assumes K: "and (uint t0) 0xF = int K"
  shows "(K - i \<le> buffered (line u) \<longrightarrow>
            hist_loop t0 i u = Inr (u\<lparr>line := drop (K - i) (line u)\<rparr>)) \<and>
         (buffered (line u) < K - i \<longrightarrow> isl (hist_loop t0 i u))"
proof (induction "K - i" arbitrary: i u)
  case 0
  then have "\<not> int i < and (uint t0) 0xF" using K by simp
  then have "hist_loop t0 i u = Inr u" by (subst hist_loop.simps) simp
  with 0 show ?case by simp
next
  case (Suc m)
  then have lt: "int i < and (uint t0) 0xF" using K by simp
  show ?case
  proof (cases "buffered (line u)")
    case 0
    then obtain u' where "uart_read_byte u = (None, u')"
      using uart_read_byte_silent by blast
    then have "isl (hist_loop t0 i u)"
      using lt by (subst hist_loop.simps) simp
    moreover have "i < K" using Suc.hyps(2) by simp
    ultimately show ?thesis using 0 by simp
  next
    case (Suc j)
    then obtain b l where l: "line u = Some b # l" using buffered_pos [of "line u"] by auto
    have step: "hist_loop t0 i u = hist_loop t0 (i + 1) (u\<lparr>line := l\<rparr>)"
      using lt by (subst hist_loop.simps) (simp add: uart_read_byte_Some [OF l])
    have m: "m = K - (i + 1)" using Suc.hyps(2) by simp
    have k: "K - i = Suc (K - (i + 1))" using Suc.hyps(2) by simp
    from Suc.hyps(1) [OF m, of "u\<lparr>line := l\<rparr>"] show ?thesis
      unfolding step k using l by simp
  qed
qed

lemma iface_loop_reads:
  assumes "i \<le> 4"
  shows "(length (filter (\<lambda>j. and (uint t0) (push_bit j 0x10) \<noteq> 0) [i..<4])
            \<le> buffered (line u) \<longrightarrow>
          iface_loop t0 i u =
            Inr (u\<lparr>line := drop (length (filter (\<lambda>j. and (uint t0) (push_bit j 0x10) \<noteq> 0)
                                                  [i..<4])) (line u)\<rparr>)) \<and>
         (buffered (line u)
            < length (filter (\<lambda>j. and (uint t0) (push_bit j 0x10) \<noteq> 0) [i..<4]) \<longrightarrow>
          isl (iface_loop t0 i u))"
  using assms
proof (induction "4 - i" arbitrary: i u)
  case 0
  then have "iface_loop t0 i u = Inr u" by (subst iface_loop.simps) simp
  with 0 show ?case by simp
next
  case (Suc m)
  then have lt: "i < 4" by simp
  then have upt: "[i..<4] = i # [i + 1..<4]" by (simp add: upt_conv_Cons)
  have m: "m = 4 - (i + 1)" "i + 1 \<le> 4" using Suc.hyps(2) by simp_all
  show ?case
  proof (cases "and (uint t0) (push_bit i 0x10) \<noteq> 0")
    case False
    then have step: "iface_loop t0 i u = iface_loop t0 (i + 1) u"
      using lt by (subst iface_loop.simps) simp
    from Suc.hyps(1) [OF m, of u] show ?thesis
      unfolding step upt using False by simp
  next
    case True
    show ?thesis
    proof (cases "buffered (line u)")
      case 0
      then obtain u' where "uart_read_byte u = (None, u')"
        using uart_read_byte_silent by blast
      then have "isl (iface_loop t0 i u)"
        using lt True by (subst iface_loop.simps) simp
      with 0 True show ?thesis unfolding upt by simp
    next
      case (Suc j)
      then obtain b l where l: "line u = Some b # l" using buffered_pos [of "line u"] by auto
      have step: "iface_loop t0 i u = iface_loop t0 (i + 1) (u\<lparr>line := l\<rparr>)"
        using lt True by (subst iface_loop.simps) (simp add: uart_read_byte_Some [OF l])
      from Suc.hyps(1) [OF m, of "u\<lparr>line := l\<rparr>"] show ?thesis
        unfolding step upt using l True by simp
    qed
  qed
qed


lemma iface_present: "(and (uint (t0 :: byte)) (push_bit i 0x10) \<noteq> 0) = bit t0 (4 + i)"
proof -
  have "push_bit i (0x10 :: int) = 2 ^ (4 + i)"
    by (simp add: push_bit_eq_mult power_add)
  then show ?thesis
    by (auto simp: and_exp_eq_0_iff_not_bit bit_uint_iff dest: bit_imp_le_length)
qed

lemma upt_0_4: "[0..<4] = [0, 1, 2, 3]"
  by code_simp

lemma upt_4_8: "[4..<8] = [4, 5, 6, 7]"
  by code_simp

lemma iface_count:
  "length (filter (\<lambda>j. and (uint (t0 :: byte)) (push_bit j 0x10) \<noteq> 0) [0..<4])
     = length (filter (bit t0) [4..<8])"
  by (simp add: iface_present upt_0_4 upt_4_8)

lemma hist_count: "and (uint (t0 :: byte)) 0xF = int (unat (t0 AND 0xF))"
  by (simp add: uint_and)


lemma wait_for_card_from_t0:
  assumes "line u = Some 0x3B # replicate k (Some 0x3B) @ Some t0 # rest" "t0 \<noteq> 0x3B"
  shows "wait_for_card u =
           (case iface_loop t0 0 (u\<lparr>line := rest\<rparr>) of
              Inl u3 \<Rightarrow> (- 1, u3)
            | Inr u3 \<Rightarrow>
                (case hist_loop t0 0 u3 of
                   Inl u4 \<Rightarrow> (- 1, u4)
                 | Inr u4 \<Rightarrow> (0, drain (uart_get_buffered_data_len u4) u4)))"
proof -
  have r: "uart_read_byte u = (Some 0x3B, u\<lparr>line := replicate k (Some 0x3B) @ Some t0 # rest\<rparr>)"
    using assms(1) by (simp add: uart_read_byte_def)
  have "skip_marker (u\<lparr>line := replicate k (Some 0x3B) @ Some t0 # rest\<rparr>)
          = Inr (t0, u\<lparr>line := rest\<rparr>)"
    using skip_marker_run [of "u\<lparr>line := replicate k (Some 0x3B) @ Some t0 # rest\<rparr>" k t0 rest]
      assms(2) by simp
  then show ?thesis by (simp add: wait_for_card_def r)
qed

text \<open>
  C7. The ATR starts with the marker 0x3B, possibly repeated; the first other byte is T0.
  With \<open>ni\<close> the number of bits set among bits 4 to 7 of T0 and \<open>nh = T0 & 0x0F\<close>:
  \<^item> the interface loop takes exactly \<open>ni\<close> bytes off the line, one for each set bit;
  \<^item> the historical loop then takes exactly \<open>nh\<close> bytes;
  \<^item> the listener returns 0 when these \<open>ni + nh\<close> bytes arrive without a silence (what is
    buffered behind them is drained as well), and
  \<^item> it returns -1 when a silence comes before the last of them: a timeout in any of the
    mandatory reads.
  For T0 = 0x97 these are 2 interface bytes and 7 historical bytes (the witness).
\<close>

theorem wait_for_card_atr_reads:
  "line u = Some 0x3B # replicate k (Some 0x3B) @ Some t0 # rest \<and> t0 \<noteq> 0x3B \<and>
   ni = length (filter (bit t0) [4..<8]) \<and> nh = unat (t0 AND 0x0F) \<longrightarrow>
     (ni \<le> buffered rest \<longrightarrow>
        iface_loop t0 0 (u\<lparr>line := rest\<rparr>) = Inr (u\<lparr>line := drop ni rest\<rparr>)) \<and>
     (nh \<le> buffered (drop ni rest) \<longrightarrow>
        hist_loop t0 0 (u\<lparr>line := drop ni rest\<rparr>) = Inr (u\<lparr>line := drop (ni + nh) rest\<rparr>)) \<and>
     (ni + nh \<le> buffered rest \<longrightarrow>
        wait_for_card u = (0, u\<lparr>line := drop (buffered rest) rest\<rparr>)) \<and>
     (buffered rest < ni + nh \<longrightarrow> fst (wait_for_card u) = - 1)"
proof (intro impI, elim conjE)
  assume l: "line u = Some 0x3B # replicate k (Some 0x3B) @ Some t0 # rest"
    and t0: "t0 \<noteq> 0x3B"
    and ni: "ni = length (filter (bit t0) [4..<8])" and nh: "nh = unat (t0 AND 0x0F)"
  note w = wait_for_card_from_t0 [OF l t0]
  from iface_loop_reads [of 0 t0 "u\<lparr>line := rest\<rparr>"]
  have I: "ni \<le> buffered rest \<longrightarrow>
             iface_loop t0 0 (u\<lparr>line := rest\<rparr>) = Inr (u\<lparr>line := drop ni rest\<rparr>)"
    and I': "buffered rest < ni \<longrightarrow> isl (iface_loop t0 0 (u\<lparr>line := rest\<rparr>))"
    by (simp_all add: iface_count ni)
  from hist_loop_reads [OF hist_count, of t0 0 "u\<lparr>line := drop ni rest\<rparr>"]
  have H: "nh \<le> buffered (drop ni rest) \<longrightarrow>
             hist_loop t0 0 (u\<lparr>line := drop ni rest\<rparr>) = Inr (u\<lparr>line := drop (ni + nh) rest\<rparr>)"
    and H': "buffered (drop ni rest) < nh \<longrightarrow> isl (hist_loop t0 0 (u\<lparr>line := drop ni rest\<rparr>))"
    by (simp_all add: nh add.commute)
  have ok: "ni + nh \<le> buffered rest \<longrightarrow>
        wait_for_card u = (0, u\<lparr>line := drop (buffered rest) rest\<rparr>)"
  proof
    assume a: "ni + nh \<le> buffered rest"
    then have b: "ni \<le> buffered rest" "nh \<le> buffered (drop ni rest)"
      by (simp_all add: buffered_drop)
    have "buffered (drop (ni + nh) rest) = buffered rest - (ni + nh)"
      using a by (rule buffered_drop)
    then have "drop (buffered (drop (ni + nh) rest)) (drop (ni + nh) rest)
                 = drop (buffered rest) rest"
      using a by simp
    then show "wait_for_card u = (0, u\<lparr>line := drop (buffered rest) rest\<rparr>)"
      using I H b by (simp add: w drain_eq uart_get_buffered_data_len_def)
  qed
  have bad: "buffered rest < ni + nh \<longrightarrow> fst (wait_for_card u) = - 1"
  proof
    assume a: "buffered rest < ni + nh"
    show "fst (wait_for_card u) = - 1"
    proof (cases "buffered rest < ni")
      case True
      with I' obtain u3 where "iface_loop t0 0 (u\<lparr>line := rest\<rparr>) = Inl u3"
        by (cases "iface_loop t0 0 (u\<lparr>line := rest\<rparr>)") auto
      then show ?thesis by (simp add: w)
    next
      case False
      then have b: "ni \<le> buffered rest" by simp
      then have "buffered (drop ni rest) < nh" using a by (simp add: buffered_drop)
      with H' obtain u4 where "hist_loop t0 0 (u\<lparr>line := drop ni rest\<rparr>) = Inl u4"
        by (cases "hist_loop t0 0 (u\<lparr>line := drop ni rest\<rparr>)") auto
      then show ?thesis using I b by (simp add: w)
    qed
  qed
  from I H ok bad
  show "(ni \<le> buffered rest \<longrightarrow>
        iface_loop t0 0 (u\<lparr>line := rest\<rparr>) = Inr (u\<lparr>line := drop ni rest\<rparr>)) \<and>
     (nh \<le> buffered (drop ni rest) \<longrightarrow>
        hist_loop t0 0 (u\<lparr>line := drop ni rest\<rparr>) = Inr (u\<lparr>line := drop (ni + nh) rest\<rparr>)) \<and>
     (ni + nh \<le> buffered rest \<longrightarrow>
        wait_for_card u = (0, u\<lparr>line := drop (buffered rest) rest\<rparr>)) \<and>
     (buffered rest < ni + nh \<longrightarrow> fst (wait_for_card u) = - 1)"
    by blast
qed


theorem wait_for_card_atr_reads_witness:
  "(line \<lparr>written = [], wr_script = [],
           line = Some 0x3B # replicate 0 (Some 0x3B) @ Some 0x97 #
                  map Some [0x11, 0x81, 0x01, 0x02, 0x03, 0x04, 0x05, 0x06, 0x07]\<rparr>
      = Some 0x3B # replicate 0 (Some 0x3B) @ Some 0x97 #
        map Some [0x11, 0x81, 0x01, 0x02, 0x03, 0x04, 0x05, 0x06, 0x07] \<and>
    (0x97 :: byte) \<noteq> 0x3B \<and>
    2 = length (filter (bit (0x97 :: byte)) [4..<8]) \<and>
    7 = unat ((0x97 :: byte) AND 0x0F) \<and>
    2 + 7 \<le> buffered (map Some [0x11, 0x81, 0x01, 0x02, 0x03, 0x04, 0x05, 0x06, 0x07]) \<and>
    wait_for_card \<lparr>written = [], wr_script = [],
                    line = map Some [0x3B, 0x97, 0x11, 0x81, 0x01, 0x02, 0x03, 0x04, 0x05,
                                     0x06, 0x07]\<rparr>
      = (0, \<lparr>written = [], wr_script = [], line = []\<rparr>)) \<and>
   (buffered (map Some [0x11, 0x81, 0x01, 0x02, 0x03, 0x04, 0x05, 0x06]) < 2 + 7 \<and>
    fst (wait_for_card \<lparr>written = [], wr_script = [],
                         line = map Some [0x3B, 0x97, 0x11, 0x81, 0x01, 0x02, 0x03, 0x04, 0x05,
                                          0x06]\<rparr>) = - 1)"
proof -
  have c: "length (filter (bit (0x97 :: byte)) [4..<8]) = 2" "unat ((0x97 :: byte) AND 0x0F) = 7"
    by code_simp+
  show ?thesis
    using
      wait_for_card_atr_reads [where ?t0.0 = "0x97" and k = 0 and ni = 2 and nh = 7
        and rest = "map Some [0x11, 0x81, 0x01, 0x02, 0x03, 0x04, 0x05, 0x06, 0x07]"
        and u = "\<lparr>written = [], wr_script = [],
                  line = Some 0x3B # replicate 0 (Some 0x3B) @ Some 0x97 #
                    map Some [0x11, 0x81, 0x01, 0x02, 0x03, 0x04, 0x05, 0x06, 0x07]\<rparr>"]
      wait_for_card_atr_reads [where ?t0.0 = "0x97" and k = 0 and ni = 2 and nh = 7
        and rest = "map Some [0x11, 0x81, 0x01, 0x02, 0x03, 0x04, 0x05, 0x06]"
        and u = "\<lparr>written = [], wr_script = [],
                  line = Some 0x3B # replicate 0 (Some 0x3B) @ Some 0x97 #
                    map Some [0x11, 0x81, 0x01, 0x02, 0x03, 0x04, 0x05, 0x06]\<rparr>"]
      c
    by simp
qed


section \<open>Properties of the HTTP collaborator\<close>

declare http_event_handler.simps [simp del]

lemma alloc_cases:
  "alloc st = (ok, st2) \<Longrightarrow>
     ok = (case heap_script st of [] \<Rightarrow> True | ok # s \<Rightarrow> ok) \<and>
     st2 = st\<lparr>heap_script := tl (heap_script st)\<rparr>"
  by (auto simp: alloc_def split: list.splits)

lemma memcpy_at_length:
  "off + length d \<le> length buf \<Longrightarrow> length (memcpy_at buf off d) = length buf"
  by (simp add: memcpy_at_def)

lemma memcpy_at_take:
  "off \<le> length buf \<Longrightarrow> take (off + length d) (memcpy_at buf off d) = take off buf @ d"
  by (simp add: memcpy_at_def)

lemma resize_length: "length (resize buf n) = n"
  by (simp add: resize_def)

lemma resize_take: "k \<le> length buf \<Longrightarrow> k \<le> n \<Longrightarrow> take k (resize buf n) = take k buf"
  by (simp add: resize_def)

text \<open>
  A block always has one byte more than \<^verbatim>\<open>output_len\<close>, as long as the counters do not wrap
  around: the copies of the handler and the terminating 0 of \<^verbatim>\<open>transmit\<close> stay inside it.
\<close>

lemma handler_block_size:
  assumes "\<And>buf. output_buffer st = Some buf \<Longrightarrow> length buf = output_len st + 1"
    and "output_len st + length d + 1 < 2 ^ 32"
    and "output_buffer (snd (http_event_handler (HTTP_EVENT_ON_DATA d) st)) = Some buf'"
  shows "length buf' = output_len (snd (http_event_handler (HTTP_EVENT_ON_DATA d) st)) + 1"
proof -
  have m: "(output_len st + length d + 1) mod 2 ^ 32 = output_len st + length d + 1"
    "(output_len st + length d) mod 2 ^ 32 = output_len st + length d"
    "length d mod 2 ^ 32 = length d"
    using assms(2) by simp_all
  show ?thesis
  proof (cases "output_buffer st")
    case None
    then show ?thesis using assms(3) m
      by (auto simp: http_event_handler.simps alloc_def Let_def memcpy_at_length
               split: list.splits if_splits)
  next
    case (Some old)
    then have "length old = output_len st + 1" by (rule assms(1))
    then show ?thesis using Some assms(3) m
      by (auto simp: http_event_handler.simps alloc_def Let_def memcpy_at_length resize_length
               split: list.splits if_splits)
  qed
qed

lemma handler_step:
  assumes inv: "http_inv B st"
    and ne: "d \<noteq> [] \<or> (case heap_script st of [] \<Rightarrow> True | ok # s \<Rightarrow> ok)"
    and fit: "length B + length d + 1 < 2 ^ 32"
  shows "http_inv (B @ d) (snd (http_event_handler (HTTP_EVENT_ON_DATA d) st))"
proof -
  obtain ok st2 where a: "alloc (st\<lparr>receive_len := (receive_len st + length d) mod 2 ^ 32\<rparr>) = (ok, st2)"
    by force
  note ac = alloc_cases [OF a]
  have rl: "receive_len st = length B" using inv by (simp add: http_inv_def)
  have m1: "(length B + length d) mod 2 ^ 32 = length B + length d" using fit by simp
  have m2: "length d mod 2 ^ 32 = length d" using fit by simp
  have m3: "(length B + length d + 1) mod 2 ^ 32 = length B + length d + 1" using fit by simp
  from inv have "clean B st \<or> output_len st < length B" by (simp add: http_inv_def)
  then show ?thesis
  proof
    assume c: "clean B st"
    show ?thesis
    proof (cases "output_buffer st")
      case None
      with c have B: "B = []" "output_len st = 0" by (simp_all add: clean_def)
      show ?thesis
      proof (cases ok)
        case True
        then show ?thesis using None B a ac rl m2
          by (simp add: http_event_handler.simps http_inv_def clean_def Let_def memcpy_at_length memcpy_at_take
                 memcpy_at_take [where off = 0, simplified])
      next
        case False
        with ac ne have "d \<noteq> []" by auto
        then show ?thesis using False None B a ac rl m2
          by (simp add: http_event_handler.simps http_inv_def clean_def Let_def)
      qed
    next
      case (Some old)
      with c have o: "output_len st = length B" "length old = length B + 1"
        "take (length B) old = B" by (simp_all add: clean_def)
      show ?thesis
      proof (cases ok)
        case True
        have "take (length B + length d)
                (memcpy_at (resize old (length B + length d + 1)) (length B) d) = B @ d"
          using o by (simp add: memcpy_at_take resize_length resize_take)
        then show ?thesis using True Some o a ac rl m1 m3
          by (simp add: http_event_handler.simps http_inv_def clean_def Let_def memcpy_at_length resize_length)
      next
        case False
        with ac ne have "d \<noteq> []" by auto
        then show ?thesis using False Some o a ac rl m1
          by (simp add: http_event_handler.simps http_inv_def clean_def Let_def)
      qed
    qed
  next
    assume dirty: "output_len st < length B"
    then have m4: "(output_len st + length d) mod 2 ^ 32 = output_len st + length d"
      using fit by simp
    have nz: "B \<noteq> []" using dirty by auto
    show ?thesis
    proof (cases "output_buffer st")
      case None
      then show ?thesis using dirty nz a ac rl m1 m2
        by (cases ok) (simp_all add: http_event_handler.simps http_inv_def Let_def)
    next
      case (Some old)
      then show ?thesis using dirty nz a ac rl m1 m4
        by (cases ok) (simp_all add: http_event_handler.simps http_inv_def Let_def)
    qed
  qed
qed


lemma handler_heap_script:
  "heap_script (snd (http_event_handler (HTTP_EVENT_ON_DATA d) st)) = tl (heap_script st)"
  by (auto simp: http_event_handler.simps alloc_def Let_def split: option.splits list.splits)

lemma handler_other:
  "(\<And>d. evt \<noteq> HTTP_EVENT_ON_DATA d) \<Longrightarrow> http_event_handler evt st = (ESP_OK, st)"
  by (cases evt) (simp_all add: http_event_handler.simps, blast)

lemma perform_inv:
  "http_inv B st \<Longrightarrow> no_empty_failure evs (heap_script st)
     \<Longrightarrow> length B + length (body_of evs) + 1 < 2 ^ 32
     \<Longrightarrow> http_inv (B @ body_of evs) (foldl (\<lambda>s evt. snd (http_event_handler evt s)) st evs)"
proof (induction evs arbitrary: B st)
  case Nil
  then show ?case by simp
next
  case (Cons evt evs)
  show ?case
  proof (cases "\<exists>d. evt = HTTP_EVENT_ON_DATA d")
    case True
    then obtain d where d: "evt = HTTP_EVENT_ON_DATA d" by blast
    let ?fin = "snd (http_event_handler (HTTP_EVENT_ON_DATA d) st)"
    have "http_inv (B @ d) ?fin"
      using Cons.prems d by (intro handler_step) simp_all
    moreover have "no_empty_failure evs (heap_script ?fin)"
      using Cons.prems(2) d by (simp add: handler_heap_script)
    moreover have "length (B @ d) + length (body_of evs) + 1 < 2 ^ 32"
      using Cons.prems(3) d by simp
    ultimately have "http_inv ((B @ d) @ body_of evs)
                       (foldl (\<lambda>s evt. snd (http_event_handler evt s)) ?fin evs)"
      by (rule Cons.IH)
    then show ?thesis using d by simp
  next
    case False
    then have h: "http_event_handler evt st = (ESP_OK, st)" by (intro handler_other) blast
    from False have b: "body_of (evt # evs) = body_of evs" by (cases evt) simp_all
    from False have n: "no_empty_failure (evt # evs) (heap_script st)
                          = no_empty_failure evs (heap_script st)" by (cases evt) simp_all
    from Cons.IH [of B st] Cons.prems show ?thesis by (simp add: h b n)
  qed
qed

lemma perform_receive_len:
  "receive_len (foldl (\<lambda>s evt. snd (http_event_handler evt s)) st evs)
     mod 2 ^ 32 = (receive_len st + length (body_of evs)) mod 2 ^ 32"
proof (induction evs arbitrary: st)
  case Nil
  then show ?case by simp
next
  case (Cons evt evs)
  show ?case
  proof (cases "\<exists>d. evt = HTTP_EVENT_ON_DATA d")
    case True
    then obtain d where d: "evt = HTTP_EVENT_ON_DATA d" by blast
    have "receive_len (snd (http_event_handler (HTTP_EVENT_ON_DATA d) st))
            = (receive_len st + length d) mod 2 ^ 32"
      by (auto simp: http_event_handler.simps alloc_def Let_def split: option.splits list.splits)
    then show ?thesis using d Cons.IH [of "snd (http_event_handler (HTTP_EVENT_ON_DATA d) st)"]
      by (simp add: mod_add_left_eq add.assoc)
  next
    case False
    then have h: "http_event_handler evt st = (ESP_OK, st)" by (intro handler_other) blast
    from False have b: "body_of (evt # evs) = body_of evs" by (cases evt) simp_all
    from Cons.IH [of st] show ?thesis by (simp add: h b)
  qed
qed

lemma perform_receive_len_bounded:
  "receive_len st < 2 ^ 32
     \<Longrightarrow> receive_len (foldl (\<lambda>s evt. snd (http_event_handler evt s)) st evs) < 2 ^ 32"
proof (induction evs arbitrary: st)
  case Nil
  then show ?case by simp
next
  case (Cons evt evs)
  show ?case
  proof (cases "\<exists>d. evt = HTTP_EVENT_ON_DATA d")
    case True
    then obtain d where d: "evt = HTTP_EVENT_ON_DATA d" by blast
    have "receive_len (snd (http_event_handler (HTTP_EVENT_ON_DATA d) st))
            = (receive_len st + length d) mod 2 ^ 32"
      by (auto simp: http_event_handler.simps alloc_def Let_def split: option.splits list.splits)
    then have "receive_len (snd (http_event_handler (HTTP_EVENT_ON_DATA d) st)) < 2 ^ 32"
      by simp
    from Cons.IH [OF this] d show ?thesis by simp
  next
    case False
    then have h: "http_event_handler evt st = (ESP_OK, st)" by (intro handler_other) blast
    from Cons.IH [of st] Cons.prems show ?thesis by (simp add: h)
  qed
qed

lemma terminate_buffer:
  assumes "length buf = length B + 1" "take (length B) buf = B"
  shows "buf[length B := x] = B @ [x]"
proof -
  have "buf = take (length B) buf @ drop (length B) buf" by simp
  moreover have "length (drop (length B) buf) = 1" using assms(1) by simp
  then obtain y where "drop (length B) buf = [y]"
    by (cases "drop (length B) buf") auto
  ultimately have "buf = B @ [y]" using assms(2) by simp
  then show ?thesis by simp
qed

text \<open>
  What \<^verbatim>\<open>transmit\<close> hands back, for every run of the handler:
  \<^item> when it returns 0 after a non-empty body that fits the 32-bit counters, and no
    allocation has failed while an event without data was served, the response is the body
    followed by one 0 byte and \<^verbatim>\<open>*rx_len\<close> is the length of the body plus one; this holds
    whatever other allocations fail, since then the exchange does not return 0;
  \<^item> when it fails, \<^verbatim>\<open>*rx\<close> is \<^verbatim>\<open>NULL\<close> and \<^verbatim>\<open>*rx_len\<close> is 0;
  \<^item> when it returns 0 after an empty body, \<^verbatim>\<open>*rx\<close> is \<^verbatim>\<open>NULL\<close> and \<^verbatim>\<open>*rx_len\<close> is 0.
\<close>

lemma transmit_response:
  "transmit events perform_err status st0 = (ret, rcode, rx, rx_len, st') \<longrightarrow>
     (ret = 0 \<and> body_of events \<noteq> [] \<and> no_empty_failure events (heap_script st0) \<and>
      length (body_of events) + 1 < 2 ^ 32 \<longrightarrow>
        rx = Some (body_of events @ [0]) \<and> rx_len = length (body_of events) + 1) \<and>
     (ret \<noteq> 0 \<longrightarrow> rx = None \<and> rx_len = 0) \<and>
     (ret = 0 \<and> body_of events = [] \<longrightarrow> rx = None \<and> rx_len = 0)"
proof
  let ?init = "st0\<lparr>output_buffer := None, output_len := 0, receive_len := 0\<rparr>"
  let ?fin = "foldl (\<lambda>s evt. snd (http_event_handler evt s)) ?init events"
  assume t: "transmit events perform_err status st0 = (ret, rcode, rx, rx_len, st')"
  have ret0: "ret = 0 \<Longrightarrow> output_len ?fin = receive_len ?fin"
    using t by (auto simp: transmit_def esp_http_client_perform_def split: if_splits option.splits)
  have fail: "ret \<noteq> 0 \<longrightarrow> rx = None \<and> rx_len = 0"
    using t by (auto simp: transmit_def esp_http_client_perform_def split: if_splits option.splits)
  have empty: "ret = 0 \<and> body_of events = [] \<longrightarrow> rx = None \<and> rx_len = 0"
  proof (intro impI, elim conjE)
    assume r: "ret = 0" and b: "body_of events = []"
    have "receive_len ?fin < 2 ^ 32" by (rule perform_receive_len_bounded) simp
    moreover have "receive_len ?fin mod 2 ^ 32 = 0"
      using perform_receive_len [where st = ?init and evs = events] b by simp
    ultimately have "receive_len ?fin = 0" by simp
    with ret0 [OF r] have "output_len ?fin = 0" by simp
    then show "rx = None \<and> rx_len = 0"
      using t by (auto simp: transmit_def esp_http_client_perform_def split: if_splits option.splits)
  qed
  have full: "ret = 0 \<and> body_of events \<noteq> [] \<and> no_empty_failure events (heap_script st0) \<and>
      length (body_of events) + 1 < 2 ^ 32 \<longrightarrow>
        rx = Some (body_of events @ [0]) \<and> rx_len = length (body_of events) + 1"
  proof (intro impI, elim conjE)
    assume r: "ret = 0" and b: "body_of events \<noteq> []"
      and a: "no_empty_failure events (heap_script st0)"
      and f: "length (body_of events) + 1 < 2 ^ 32"
    have "http_inv [] ?init" by (simp add: http_inv_def clean_def)
    from perform_inv [OF this, where evs = events] a f
    have inv: "http_inv (body_of events) ?fin" by simp
    then have rl: "receive_len ?fin = length (body_of events)" by (simp add: http_inv_def)
    with ret0 [OF r] have ol: "output_len ?fin = length (body_of events)" by simp
    with inv have "clean (body_of events) ?fin" by (simp add: http_inv_def)
    with b obtain buf where buf: "output_buffer ?fin = Some buf"
      "length buf = length (body_of events) + 1"
      "take (length (body_of events)) buf = body_of events"
      by (auto simp: clean_def split: option.splits)
    have m: "(length (body_of events) + 1) mod 2 ^ 32 = length (body_of events) + 1"
      using f by simp
    have pos: "0 < length (body_of events)" using b by simp
    have "buf[length (body_of events) := 0] = body_of events @ [0]"
      using buf(2,3) by (rule terminate_buffer)
    then show "rx = Some (body_of events @ [0]) \<and> rx_len = length (body_of events) + 1"
      using t r rl ol buf(1) m pos
      by (auto simp: transmit_def esp_http_client_perform_def split: if_splits)
  qed
  from full fail empty
  show "(ret = 0 \<and> body_of events \<noteq> [] \<and> no_empty_failure events (heap_script st0) \<and>
      length (body_of events) + 1 < 2 ^ 32 \<longrightarrow>
        rx = Some (body_of events @ [0]) \<and> rx_len = length (body_of events) + 1) \<and>
     (ret \<noteq> 0 \<longrightarrow> rx = None \<and> rx_len = 0) \<and>
     (ret = 0 \<and> body_of events = [] \<longrightarrow> rx = None \<and> rx_len = 0)"
    by blast
qed

text \<open>
  The comparison of \<^verbatim>\<open>output_len\<close> with \<^verbatim>\<open>receive_len\<close> (\<^verbatim>\<open>"Data may be lost"\<close>) catches a
  failed \<^verbatim>\<open>malloc\<close>, and a failed \<^verbatim>\<open>realloc\<close> on an event that carries data: the transmit
  fails although the client reports success.
\<close>

lemma transmit_detects_lost_data:
  "transmit [HTTP_EVENT_ON_DATA [0x41]] ESP_OK 200
      \<lparr>output_buffer = None, output_len = 0, receive_len = 0, heap_script = [False]\<rparr>
     = (- 1, 0, None, 0,
        \<lparr>output_buffer = None, output_len = 0, receive_len = 0, heap_script = []\<rparr>) \<and>
   transmit [HTTP_EVENT_ON_DATA [0x41], HTTP_EVENT_ON_DATA [0x42]] ESP_OK 200
      \<lparr>output_buffer = None, output_len = 0, receive_len = 0, heap_script = [True, False]\<rparr>
     = (- 1, 0, None, 0,
        \<lparr>output_buffer = None, output_len = 0, receive_len = 0, heap_script = []\<rparr>)"
  by (simp add: transmit_def esp_http_client_perform_def http_event_handler.simps alloc_def
                memcpy_at_def resize_def ESP_OK_def ESP_FAIL_def)

text \<open>
  C10 (the code departs from the claim). One byte arrives and is stored; then an event
  without data arrives and its \<^verbatim>\<open>realloc\<close> fails, which sets \<^verbatim>\<open>output_buffer\<close> to
  \<^verbatim>\<open>NULL\<close> and leaves \<^verbatim>\<open>output_len\<close> equal to \<^verbatim>\<open>receive_len\<close>, so that the comparison of
  the two does not notice the loss. The client reports success, and \<^verbatim>\<open>transmit\<close> returns 0
  with \<^verbatim>\<open>*rx = NULL\<close> and \<^verbatim>\<open>*rx_len = 0\<close>, although a body of one byte was received:
  not the length 2 and the buffer \<open>41 00\<close>.
\<close>

theorem transmit_success_drops_body:
  "transmit [HTTP_EVENT_ON_DATA [0x41], HTTP_EVENT_ON_DATA []] ESP_OK 200
      \<lparr>output_buffer = None, output_len = 0, receive_len = 0, heap_script = [True, False]\<rparr>
     = (0, 200, None, 0,
        \<lparr>output_buffer = None, output_len = 0, receive_len = 0, heap_script = []\<rparr>) \<and>
   body_of [HTTP_EVENT_ON_DATA [0x41], HTTP_EVENT_ON_DATA []] = [0x41]"
  by (simp add: transmit_def esp_http_client_perform_def http_event_handler.simps alloc_def
                memcpy_at_def resize_def ESP_OK_def ESP_FAIL_def)

end
